theory Spec2Isabelle
  imports Main "HOL-Library.Word"
begin

unbundle bit_operations_syntax

section \<open>Data model of \<open>Kernel::Process\<close> (core/hle/kernel/process.cpp)\<close>

type_synonym u8 = "8 word"
type_synonym u32 = "32 word"
type_synonym s32 = "32 word"
type_synonym u64 = "64 word"
type_synonym VAddr = "64 word"

text \<open>\<open>enum class ProcessStatus\<close>, in the order the lifecycle names its members.\<close>

datatype ProcessStatus = Created | Running | Exiting | Exited

text \<open>
  \<open>enum class ThreadStatus\<close> is declared in thread.h. process.cpp names two of its
  members, the blocking-wait states \<open>WaitSynchAny\<close> and \<open>WaitSynchAll\<close>; the other
  members are kept apart from these two and from each other.
\<close>

datatype ThreadStatus =
    ThreadStatus_Running | ThreadStatus_Ready | WaitSynchAny | WaitSynchAll
  | ThreadStatus_Other nat

text \<open>The memory-state tags process.cpp passes to the address-space manager.\<close>

datatype MemoryState = CodeStatic | CodeMutable | Mapped | ThreadLocal | MemoryState_Other nat

text \<open>
  Modelled from the spec: \<open>enum class VMAPermission\<close> is declared in vm_manager.h, which
  is not part of the sources at hand. Its members are named after the access rights they
  grant; \<open>perm_read\<close>, \<open>perm_write\<close> and \<open>perm_execute\<close> read the three rights off a
  member.
\<close>

datatype VMAPermission =
    None_perm | Read | Write | Execute | ReadWrite | ReadExecute | WriteExecute
  | ReadWriteExecute

fun perm_read :: "VMAPermission \<Rightarrow> bool" where
  "perm_read Read = True"
| "perm_read ReadWrite = True"
| "perm_read ReadExecute = True"
| "perm_read ReadWriteExecute = True"
| "perm_read _ = False"

fun perm_write :: "VMAPermission \<Rightarrow> bool" where
  "perm_write Write = True"
| "perm_write ReadWrite = True"
| "perm_write WriteExecute = True"
| "perm_write ReadWriteExecute = True"
| "perm_write _ = False"

fun perm_execute :: "VMAPermission \<Rightarrow> bool" where
  "perm_execute Execute = True"
| "perm_execute ReadExecute = True"
| "perm_execute WriteExecute = True"
| "perm_execute ReadWriteExecute = True"
| "perm_execute _ = False"

text \<open>
  \<open>ResultCode\<close>: success, the kernel's \<open>ERR_INVALID_STATE\<close>, or any other code an
  address-space operation hands back.
\<close>

datatype ResultCode = RESULT_SUCCESS | ERR_INVALID_STATE | ResultCode_Other nat

text \<open>
  A failed \<open>ASSERT_MSG\<close>, an \<open>Unwrap()\<close> of a failed \<open>ResultVal\<close> and an index outside a
  container end the emulator; they are the left summand of every operation that can hit
  them.
\<close>

datatype fatal = AssertFailed string | UnwrapFailed ResultCode | OutOfRange

text \<open>
  Calls into the ambient services of the emulator (the logger, the wait-object base class,
  thread objects, the CPU cores, the thread-setup facility, the kernel's process table)
  return nothing the process looks at. Each such call is recorded, in program order, in
  the \<open>calls\<close> trace.
\<close>

datatype call =
    LOG_ERROR string "nat list"
  | LOG_WARNING string
  | LOG_INFO string "nat list"
  | WakeupAllWaitingThreads
  | Thread_Stop nat
  | ClearInstructionCache nat
  | LogLayout
  | SetupMainThread VAddr s32
  | AppendNewProcess u32

record AddressMapping =
  address :: VAddr
  size_of :: u64
  read_only :: bool
  unk_flag :: bool

record ProgramMetadata =
  title_id :: u64
  main_thread_core :: u8
  is_64bit_program :: bool
  address_space_type :: nat

record Segment =
  seg_offset :: u64
  seg_addr :: VAddr
  seg_size :: u32

record CodeSet =
  CodeSegment :: Segment
  RODataSegment :: Segment
  DataSegment :: Segment
  memory :: "u8 list"

text \<open>
  The members of \<open>Process\<close> that process.cpp reads or writes. \<open>svc_access_mask\<close> is a
  \<open>std::bitset\<close> of fixed size, here a list of booleans whose length is that size;
  \<open>tls_slots\<close> is a \<open>std::vector<std::bitset<8>>\<close>, here a list of 8-bit words. The
  address-space manager \<open>vm_manager\<close> is a member whose type \<open>'vm\<close> is left open.
\<close>

record 'vm Process =
  name :: string
  flags_raw :: u32
  resource_limit :: nat
  status :: ProcessStatus
  program_id :: u64
  process_id :: u32
  svc_access_mask :: "bool list"
  random_entropy :: "u64 list"
  is_signaled :: bool
  ideal_processor :: u8
  is_64bit_process :: bool
  handle_table_size :: u32
  kernel_version :: u32
  address_mappings :: "AddressMapping list"
  tls_slots :: "u8 list"
  vm_manager :: 'vm

text \<open>
  A thread object, as far as process.cpp queries it: its owner (a process, identified by
  its unique \<open>process_id\<close>), its status and its TLS backing storage; and the processes
  it is blocked waiting on, which process.cpp never reads but the wake-up of a process
  goes by.
\<close>

record Thread =
  owner_process :: u32
  thread_status :: ThreadStatus
  tls_memory :: "u8 list"
  wait_objects :: "u32 list"

text \<open>
  What an operation of the process can see and change: the process itself, the thread
  objects (by pointer, here a number), the thread list of each core's scheduler, the
  thread that is executing the call, and the trace of calls into the ambient services.
\<close>

record 'vm World =
  process :: "'vm Process"
  threads :: "nat \<Rightarrow> Thread"
  scheduler_thread_list :: "nat \<Rightarrow> nat list"
  current_thread :: nat
  calls :: "call list"

text \<open>
  The collaborators whose code is not in process.cpp, taken as parameters: the constants
  of core/memory.h, the operations of the address-space manager, each a function of the
  manager's state that returns its result and the new state, the value \<open>flags.raw\<close>
  has once \<open>memory_region\<close> is assigned \<open>MemoryRegion::APPLICATION\<close> in a zeroed flags
  word, the generator that fills the entropy array from a seed, and what
  \<open>thread->Stop()\<close> (of the thread given) and \<open>WakeupAllWaitingThreads()\<close> (of the
  process whose id is given) do to the thread objects.
\<close>

record ('vm, 'h) Env =
  PAGE_SIZE :: u64
  TLS_ENTRY_SIZE :: u64
  vm_MapMemoryBlock ::
    "VAddr \<Rightarrow> u8 list \<Rightarrow> u64 \<Rightarrow> u64 \<Rightarrow> MemoryState \<Rightarrow> 'vm \<Rightarrow> (ResultCode + 'h) \<times> 'vm"
  vm_Reprotect :: "'h \<Rightarrow> VMAPermission \<Rightarrow> 'vm \<Rightarrow> 'vm"
  vm_RefreshMemoryBlockMappings :: "u8 list \<Rightarrow> 'vm \<Rightarrow> 'vm"
  vm_UnmapRange :: "VAddr \<Rightarrow> u64 \<Rightarrow> 'vm \<Rightarrow> ResultCode \<times> 'vm"
  vm_HeapAllocate :: "VAddr \<Rightarrow> u64 \<Rightarrow> VMAPermission \<Rightarrow> 'vm \<Rightarrow> (ResultCode + VAddr) \<times> 'vm"
  vm_HeapFree :: "VAddr \<Rightarrow> u32 \<Rightarrow> 'vm \<Rightarrow> ResultCode \<times> 'vm"
  vm_MirrorMemory :: "VAddr \<Rightarrow> VAddr \<Rightarrow> u64 \<Rightarrow> MemoryState \<Rightarrow> 'vm \<Rightarrow> ResultCode \<times> 'vm"
  vm_Reset :: "nat \<Rightarrow> 'vm \<Rightarrow> 'vm"
  vm_GetTLSIORegionBaseAddress :: "'vm \<Rightarrow> VAddr"
  vm_GetTLSIORegionEndAddress :: "'vm \<Rightarrow> VAddr"
  flags_memory_region_APPLICATION :: u32
  generate_entropy :: "nat \<Rightarrow> nat \<Rightarrow> u64 list"
  thread_Stop :: "nat \<Rightarrow> (nat \<Rightarrow> Thread) \<Rightarrow> (nat \<Rightarrow> Thread)"
  wait_object_WakeupAllWaitingThreads :: "u32 \<Rightarrow> (nat \<Rightarrow> Thread) \<Rightarrow> (nat \<Rightarrow> Thread)"

section \<open>Creation, signal state and status changes\<close>

text \<open>
  \<open>Process::Create\<close>. The freshly constructed object \<open>new Process(kernel)\<close> is the
  process of the world the call starts in; the id comes from
  \<open>kernel.CreateNewProcessID()\<close>, the resource limit from
  \<open>kernel.GetSystemResourceLimit()\<close>, the seed from \<open>Settings::values.rng_seed\<close>.
  \<open>svc_access_mask.set()\<close> sets every bit of the mask.
\<close>

definition Create ::
  "('vm, 'h) Env \<Rightarrow> string \<Rightarrow> u32 \<Rightarrow> nat \<Rightarrow> nat option \<Rightarrow> 'vm World \<Rightarrow> 'vm World" where
  "Create E nm new_id system_limit rng_seed w =
     (let p = process w;
          p = p\<lparr>name := nm\<rparr>;
          p = p\<lparr>flags_raw := 0\<rparr>;
          p = p\<lparr>flags_raw := flags_memory_region_APPLICATION E\<rparr>;
          p = p\<lparr>resource_limit := system_limit\<rparr>;
          p = p\<lparr>status := Created\<rparr>;
          p = p\<lparr>program_id := 0\<rparr>;
          p = p\<lparr>process_id := new_id\<rparr>;
          p = p\<lparr>svc_access_mask := map (\<lambda>_. True) (svc_access_mask p)\<rparr>;
          seed = (case rng_seed of None \<Rightarrow> 0 | Some s \<Rightarrow> s);
          p = p\<lparr>random_entropy := generate_entropy E seed (length (random_entropy p))\<rparr>
      in w\<lparr>process := p, calls := calls w @ [AppendNewProcess new_id]\<rparr>)"

text \<open>\<open>Process::ClearSignalState\<close>.\<close>

definition ClearSignalState :: "'vm World \<Rightarrow> ResultCode \<times> 'vm World" where
  "ClearSignalState w =
     (if status (process w) = Exited then
        (ERR_INVALID_STATE,
         w\<lparr>calls := calls w @ [LOG_ERROR ''called on a terminated process instance.'' []]\<rparr>)
      else if \<not> is_signaled (process w) then
        (ERR_INVALID_STATE,
         w\<lparr>calls := calls w
            @ [LOG_ERROR ''called on a process instance that isn't signaled.'' []]\<rparr>)
      else (RESULT_SUCCESS, w\<lparr>process := (process w)\<lparr>is_signaled := False\<rparr>\<rparr>))"

text \<open>
  \<open>Process::ChangeStatus\<close>. The call of \<open>WakeupAllWaitingThreads()\<close> is recorded in
  the trace, and the thread objects become what that wake-up makes of them.
\<close>

definition ChangeStatus :: "('vm, 'h) Env \<Rightarrow> ProcessStatus \<Rightarrow> 'vm World \<Rightarrow> 'vm World" where
  "ChangeStatus E new_status w =
     (if status (process w) = new_status then w
      else
        (let w = w\<lparr>process := (process w)\<lparr>status := new_status\<rparr>\<rparr>;
             w = w\<lparr>process := (process w)\<lparr>is_signaled := True\<rparr>\<rparr>;
             w = w\<lparr>threads := wait_object_WakeupAllWaitingThreads E (process_id (process w))
                                  (threads w)\<rparr>
         in w\<lparr>calls := calls w @ [WakeupAllWaitingThreads]\<rparr>))"

text \<open>\<open>Process::ShouldWait\<close> and \<open>Process::Acquire\<close>.\<close>

definition ShouldWait :: "'vm World \<Rightarrow> bool" where
  "ShouldWait w = (\<not> is_signaled (process w))"

definition Acquire :: "'vm World \<Rightarrow> fatal + 'vm World" where
  "Acquire w = (if ShouldWait w then Inl (AssertFailed ''Object unavailable!'') else Inr w)"

section \<open>The address-space facade\<close>

text \<open>\<open>Process::HeapAllocate\<close>, \<open>HeapFree\<close>, \<open>MirrorMemory\<close> and \<open>UnmapMemory\<close>.\<close>

definition HeapAllocate ::
  "('vm, 'h) Env \<Rightarrow> VAddr \<Rightarrow> u64 \<Rightarrow> VMAPermission \<Rightarrow> 'vm World
     \<Rightarrow> (ResultCode + VAddr) \<times> 'vm World" where
  "HeapAllocate E target sz perms w =
     (let (r, vm) = vm_HeapAllocate E target sz perms (vm_manager (process w))
      in (r, w\<lparr>process := (process w)\<lparr>vm_manager := vm\<rparr>\<rparr>))"

definition HeapFree :: "('vm, 'h) Env \<Rightarrow> VAddr \<Rightarrow> u32 \<Rightarrow> 'vm World \<Rightarrow> ResultCode \<times> 'vm World" where
  "HeapFree E target sz w =
     (let (r, vm) = vm_HeapFree E target sz (vm_manager (process w))
      in (r, w\<lparr>process := (process w)\<lparr>vm_manager := vm\<rparr>\<rparr>))"

definition MirrorMemory ::
  "('vm, 'h) Env \<Rightarrow> VAddr \<Rightarrow> VAddr \<Rightarrow> u64 \<Rightarrow> MemoryState \<Rightarrow> 'vm World
     \<Rightarrow> ResultCode \<times> 'vm World" where
  "MirrorMemory E dst_addr src_addr sz st w =
     (let (r, vm) = vm_MirrorMemory E dst_addr src_addr sz st (vm_manager (process w))
      in (r, w\<lparr>process := (process w)\<lparr>vm_manager := vm\<rparr>\<rparr>))"

definition UnmapMemory ::
  "('vm, 'h) Env \<Rightarrow> VAddr \<Rightarrow> VAddr \<Rightarrow> u64 \<Rightarrow> 'vm World \<Rightarrow> ResultCode \<times> 'vm World" where
  "UnmapMemory E dst_addr src_addr sz w =
     (let (r, vm) = vm_UnmapRange E dst_addr sz (vm_manager (process w))
      in (r, w\<lparr>process := (process w)\<lparr>vm_manager := vm\<rparr>\<rparr>))"


section \<open>Metadata and capability descriptors\<close>

text \<open>\<open>Process::LoadFromMetadata\<close>.\<close>

definition LoadFromMetadata :: "('vm, 'h) Env \<Rightarrow> ProgramMetadata \<Rightarrow> 'vm World \<Rightarrow> 'vm World" where
  "LoadFromMetadata E metadata w =
     (let p = process w;
          p = p\<lparr>program_id := title_id metadata\<rparr>;
          p = p\<lparr>ideal_processor := main_thread_core metadata\<rparr>;
          p = p\<lparr>is_64bit_process := is_64bit_program metadata\<rparr>;
          p = p\<lparr>vm_manager := vm_Reset E (address_space_type metadata) (vm_manager p)\<rparr>
      in w\<lparr>process := p\<rparr>)"

text \<open>
  The inner loop of the allowed-syscalls branch:
  \<open>while (bits && index < svc_access_mask.size())\<close>. \<open>index\<close> starts at no more than
  \<open>7 * 24\<close> and is incremented at most 24 times, so it is a natural number here.
\<close>

function svc_loop :: "u32 \<Rightarrow> nat \<Rightarrow> bool list \<Rightarrow> bool list" where
  "svc_loop bits index access_mask =
     (if bits \<noteq> 0 \<and> index < length access_mask
      then svc_loop (drop_bit 1 bits) (index + 1) (access_mask[index := (bits AND 1 \<noteq> 0)])
      else access_mask)"
  by pat_completeness auto
termination
  by (relation "measure (\<lambda>(bits, index, access_mask). length access_mask - index)") auto

declare svc_loop.simps [simp del]

definition log_call :: "call \<Rightarrow> 'vm World \<Rightarrow> 'vm World" where
  "log_call c w = w\<lparr>calls := calls w @ [c]\<rparr>"

text \<open>
  The body of the \<open>for\<close> loop of \<open>Process::ParseKernelCaps\<close> at index \<open>i\<close>, which is in
  range. The result is the value of \<open>i\<close> when the body ends (the loop header then
  increments it) and the new state. The mapping's address and end address are 32-bit
  shifts widened to \<open>VAddr\<close>.
\<close>

definition ParseKernelCaps_body ::
  "('vm, 'h) Env \<Rightarrow> u32 list \<Rightarrow> nat \<Rightarrow> 'vm World \<Rightarrow> nat \<times> 'vm World" where
  "ParseKernelCaps_body E kernel_caps i w =
     (let descriptor = kernel_caps ! i;
          type = drop_bit 20 descriptor
      in
      if descriptor = 0xFFFFFFFF then (i, w)
      else if type AND 0xF00 = 0xE00 then
        (i, log_call (LOG_WARNING ''ExHeader allowed interrupts list ignored'') w)
      else if type AND 0xF80 = 0xF00 then
        (let index = unat ((drop_bit 24 descriptor AND 7) * 24);
             bits = descriptor AND 0xFFFFFF
         in (i, w\<lparr>process := (process w)
                 \<lparr>svc_access_mask := svc_loop bits index (svc_access_mask (process w))\<rparr>\<rparr>))
      else if type AND 0xFF0 = 0xFE0 then
        (i, w\<lparr>process := (process w)\<lparr>handle_table_size := descriptor AND 0x3FF\<rparr>\<rparr>)
      else if type AND 0xFF8 = 0xFF0 then
        (i, w\<lparr>process := (process w)\<lparr>flags_raw := descriptor AND 0xFFFF\<rparr>\<rparr>)
      else if type AND 0xFFE = 0xFF8 then
        (if i + 1 \<ge> length kernel_caps
            \<or> drop_bit 20 (kernel_caps ! (i + 1)) AND 0xFFE \<noteq> 0xFF8
         then
           (i, log_call
                 (LOG_WARNING ''Incomplete exheader memory range descriptor ignored.'') w)
         else
           (let end_desc = kernel_caps ! (i + 1);
                mapping_address = (ucast (push_bit 12 descriptor :: u32) :: VAddr);
                end_address = (ucast (push_bit 12 end_desc :: u32) :: VAddr);
                mapping_size =
                  (if mapping_address < end_address then end_address - mapping_address
                   else 0);
                mapping = \<lparr>address = mapping_address, size_of = mapping_size,
                           read_only = (descriptor AND push_bit 20 1 \<noteq> 0),
                           unk_flag = (end_desc AND push_bit 20 1 \<noteq> 0)\<rparr>
            in (i + 1,
                w\<lparr>process := (process w)
                   \<lparr>address_mappings := address_mappings (process w) @ [mapping]\<rparr>\<rparr>)))
      else if type AND 0xFFF = 0xFFE then
        (let mapping = \<lparr>address = (ucast (push_bit 12 descriptor :: u32) :: VAddr),
                        size_of = PAGE_SIZE E, read_only = False, unk_flag = False\<rparr>
         in (i, w\<lparr>process := (process w)
                 \<lparr>address_mappings := address_mappings (process w) @ [mapping]\<rparr>\<rparr>))
      else if type AND 0xFE0 = 0xFC0 then
        (let version = descriptor AND 0xFFFF;
             minor = version AND 0xFF;
             major = drop_bit 8 version AND 0xFF
         in (i, log_call (LOG_INFO ''ExHeader kernel version: {}.{}'' [unat major, unat minor])
                  (w\<lparr>process := (process w)\<lparr>kernel_version := version\<rparr>\<rparr>)))
      else
        (i, log_call (LOG_ERROR ''Unhandled kernel caps descriptor: 0x{:08X}''
                        [unat descriptor]) w))"

lemma ParseKernelCaps_body_index:
  "fst (ParseKernelCaps_body E kernel_caps i w) = i
   \<or> fst (ParseKernelCaps_body E kernel_caps i w) = i + 1"
  by (simp add: ParseKernelCaps_body_def Let_def)

text \<open>The \<open>for\<close> loop of \<open>Process::ParseKernelCaps\<close>, from index \<open>i\<close> on.\<close>

function ParseKernelCaps_from ::
  "('vm, 'h) Env \<Rightarrow> u32 list \<Rightarrow> nat \<Rightarrow> 'vm World \<Rightarrow> 'vm World" where
  "ParseKernelCaps_from E kernel_caps i w =
     (if i < length kernel_caps
      then ParseKernelCaps_from E kernel_caps
             (fst (ParseKernelCaps_body E kernel_caps i w) + 1)
             (snd (ParseKernelCaps_body E kernel_caps i w))
      else w)"
  by pat_completeness auto
termination
proof (relation "measure (\<lambda>(E, kernel_caps, i, w). length kernel_caps - i)")
  show "wf (measure (\<lambda>(E, kernel_caps, i, w). length kernel_caps - i))"
    by simp
next
  fix E :: "('vm, 'h) Env" and kernel_caps :: "u32 list" and i :: nat and w :: "'vm World"
  assume "i < length kernel_caps"
  then show "((E, kernel_caps, fst (ParseKernelCaps_body E kernel_caps i w) + 1,
               snd (ParseKernelCaps_body E kernel_caps i w)),
              (E, kernel_caps, i, w))
             \<in> measure (\<lambda>(E, kernel_caps, i, w). length kernel_caps - i)"
    using ParseKernelCaps_body_index [of E kernel_caps i w] by auto
qed

declare ParseKernelCaps_from.simps [simp del]

text \<open>
  The iterations of that loop from index \<open>i\<close> on: the index and the state at the start
  of each run of the body, in order.
\<close>

function ParseKernelCaps_iterations ::
  "('vm, 'h) Env \<Rightarrow> u32 list \<Rightarrow> nat \<Rightarrow> 'vm World \<Rightarrow> (nat \<times> 'vm World) list" where
  "ParseKernelCaps_iterations E kernel_caps i w =
     (if i < length kernel_caps
      then (i, w) # ParseKernelCaps_iterations E kernel_caps
                      (fst (ParseKernelCaps_body E kernel_caps i w) + 1)
                      (snd (ParseKernelCaps_body E kernel_caps i w))
      else [])"
  by pat_completeness auto
termination
proof (relation "measure (\<lambda>(E, kernel_caps, i, w). length kernel_caps - i)")
  show "wf (measure (\<lambda>(E, kernel_caps, i, w). length kernel_caps - i))"
    by simp
next
  fix E :: "('vm, 'h) Env" and kernel_caps :: "u32 list" and i :: nat and w :: "'vm World"
  assume "i < length kernel_caps"
  then show "((E, kernel_caps, fst (ParseKernelCaps_body E kernel_caps i w) + 1,
               snd (ParseKernelCaps_body E kernel_caps i w)),
              (E, kernel_caps, i, w))
             \<in> measure (\<lambda>(E, kernel_caps, i, w). length kernel_caps - i)"
    using ParseKernelCaps_body_index [of E kernel_caps i w] by auto
qed

declare ParseKernelCaps_iterations.simps [simp del]

definition ParseKernelCaps :: "('vm, 'h) Env \<Rightarrow> u32 list \<Rightarrow> 'vm World \<Rightarrow> 'vm World" where
  "ParseKernelCaps E kernel_caps w = ParseKernelCaps_from E kernel_caps 0 w"


section \<open>Running and terminating\<close>

text \<open>
  \<open>Process::Run\<close>. The stack is a fresh block of \<open>stack_size\<close> zero bytes;
  \<open>.Unwrap()\<close> of a failed mapping is fatal.
\<close>

definition Run :: "('vm, 'h) Env \<Rightarrow> VAddr \<Rightarrow> s32 \<Rightarrow> u32 \<Rightarrow> 'vm World \<Rightarrow> fatal + 'vm World" where
  "Run E entry_point main_thread_priority stack_size w =
     (let vm = vm_manager (process w);
          (r, vm) = vm_MapMemoryBlock E (vm_GetTLSIORegionEndAddress E vm - ucast stack_size)
                      (replicate (unat stack_size) 0) 0 (ucast stack_size) Mapped vm
      in case r of
           Inl code \<Rightarrow> Inl (UnwrapFailed code)
         | Inr vma \<Rightarrow>
             (let w = w\<lparr>process := (process w)\<lparr>vm_manager := vm\<rparr>\<rparr>;
                  w = log_call LogLayout w;
                  w = ChangeStatus E Running w
              in Inr (log_call (SetupMainThread entry_point main_thread_priority) w)))"

text \<open>
  The lambda \<open>stop_threads\<close> of \<open>Process::PrepareForTermination\<close>, over one core's
  thread list. Owner and status are read from the thread objects as they are when the
  loop comes to the thread; \<open>thread->Stop()\<close> is recorded in the trace, and the thread
  objects become what it makes of them.
\<close>

fun stop_threads :: "('vm, 'h) Env \<Rightarrow> nat list \<Rightarrow> 'vm World \<Rightarrow> fatal + 'vm World" where
  "stop_threads E [] w = Inr w"
| "stop_threads E (thread # thread_list) w =
     (if owner_process (threads w thread) \<noteq> process_id (process w)
      then stop_threads E thread_list w
      else if thread = current_thread w
      then stop_threads E thread_list w
      else if \<not> (thread_status (threads w thread) = WaitSynchAny
                 \<or> thread_status (threads w thread) = WaitSynchAll)
      then Inl (AssertFailed
                  ''Exiting processes with non-waiting threads is currently unimplemented'')
      else stop_threads E thread_list
             (log_call (Thread_Stop thread)
                (w\<lparr>threads := thread_Stop E thread (threads w)\<rparr>)))"

definition and_then :: "fatal + 'a \<Rightarrow> ('a \<Rightarrow> fatal + 'b) \<Rightarrow> fatal + 'b" where
  "and_then r f = (case r of Inl e \<Rightarrow> Inl e | Inr x \<Rightarrow> f x)"

text \<open>\<open>Process::PrepareForTermination\<close>.\<close>

definition PrepareForTermination :: "('vm, 'h) Env \<Rightarrow> 'vm World \<Rightarrow> fatal + 'vm World" where
  "PrepareForTermination E w =
     and_then (Inr (ChangeStatus E Exiting w)) (\<lambda>w.
     and_then (stop_threads E (scheduler_thread_list w 0) w) (\<lambda>w.
     and_then (stop_threads E (scheduler_thread_list w 1) w) (\<lambda>w.
     and_then (stop_threads E (scheduler_thread_list w 2) w) (\<lambda>w.
     and_then (stop_threads E (scheduler_thread_list w 3) w) (\<lambda>w.
     Inr (ChangeStatus E Exited w))))))"

section \<open>Thread-local storage slots\<close>

text \<open>
  \<open>FindFreeThreadLocalSlot\<close>: the outer loop over the pages from index \<open>page\<close> on, the
  inner loop over the eight slots of a page that is not \<open>all()\<close> set.
\<close>

fun FindFreeThreadLocalSlot_from :: "nat \<Rightarrow> u8 list \<Rightarrow> nat \<times> nat \<times> bool" where
  "FindFreeThreadLocalSlot_from page [] = (0, 0, True)"
| "FindFreeThreadLocalSlot_from page (page_tls_slots # rest) =
     (if page_tls_slots \<noteq> - 1 then
        (case find (\<lambda>slot. \<not> bit page_tls_slots slot) [0..<8] of
           Some slot \<Rightarrow> (page, slot, False)
         | None \<Rightarrow> FindFreeThreadLocalSlot_from (page + 1) rest)
      else FindFreeThreadLocalSlot_from (page + 1) rest)"

definition FindFreeThreadLocalSlot :: "u8 list \<Rightarrow> nat \<times> nat \<times> bool" where
  "FindFreeThreadLocalSlot slots = FindFreeThreadLocalSlot_from 0 slots"

text \<open>
  \<open>Process::MarkNextAvailableTLSSlotAsUsed\<close>. The result of the \<open>MapMemoryBlock\<close> call
  for a new page is not looked at.
\<close>

definition MarkNextAvailableTLSSlotAsUsed ::
  "('vm, 'h) Env \<Rightarrow> nat \<Rightarrow> 'vm World \<Rightarrow> VAddr \<times> 'vm World" where
  "MarkNextAvailableTLSSlotAsUsed E thread w =
     (let (available_page, available_slot, needs_allocation) =
            FindFreeThreadLocalSlot (tls_slots (process w));
          tls_begin = vm_GetTLSIORegionBaseAddress E (vm_manager (process w));
          (available_page, available_slot, w) =
            (if needs_allocation then
               (let w = w\<lparr>process := (process w)\<lparr>tls_slots := tls_slots (process w) @ [0]\<rparr>\<rparr>;
                    available_page = length (tls_slots (process w)) - 1;
                    available_slot = 0;
                    block = tls_memory (threads w thread)
                              @ replicate (unat (PAGE_SIZE E)) 0;
                    w = w\<lparr>threads := (threads w)
                           (thread := (threads w thread)\<lparr>tls_memory := block\<rparr>)\<rparr>;
                    vm = vm_RefreshMemoryBlockMappings E block (vm_manager (process w));
                    (r, vm) = vm_MapMemoryBlock E
                                (tls_begin + of_nat available_page * PAGE_SIZE E)
                                block 0 (PAGE_SIZE E) ThreadLocal vm
                in (available_page, available_slot,
                    w\<lparr>process := (process w)\<lparr>vm_manager := vm\<rparr>\<rparr>))
             else (available_page, available_slot, w));
          slots = tls_slots (process w);
          w = w\<lparr>process := (process w)
                \<lparr>tls_slots := slots[available_page :=
                                       set_bit available_slot (slots ! available_page)]\<rparr>\<rparr>
      in (tls_begin + of_nat available_page * PAGE_SIZE E
            + of_nat available_slot * TLS_ENTRY_SIZE E, w))"

text \<open>
  \<open>Process::FreeTLSSlot\<close>. An index outside the vector, or a slot outside the bitset, is
  fatal.
\<close>

definition FreeTLSSlot :: "('vm, 'h) Env \<Rightarrow> VAddr \<Rightarrow> 'vm World \<Rightarrow> fatal + 'vm World" where
  "FreeTLSSlot E tls_address w =
     (let tls_base = tls_address - vm_GetTLSIORegionBaseAddress E (vm_manager (process w));
          tls_page = tls_base div PAGE_SIZE E;
          tls_slot = (tls_base mod PAGE_SIZE E) div TLS_ENTRY_SIZE E;
          slots = tls_slots (process w)
      in if unat tls_page \<ge> length slots \<or> unat tls_slot \<ge> 8 then Inl OutOfRange
         else Inr (w\<lparr>process := (process w)
                     \<lparr>tls_slots := slots[unat tls_page :=
                                            unset_bit (unat tls_slot) (slots ! unat tls_page)]\<rparr>\<rparr>))"

section \<open>Loading a module\<close>

text \<open>The lambda \<open>MapSegment\<close> of \<open>Process::LoadModule\<close>.\<close>

definition MapSegment ::
  "('vm, 'h) Env \<Rightarrow> CodeSet \<Rightarrow> VAddr \<Rightarrow> Segment \<Rightarrow> VMAPermission \<Rightarrow> MemoryState
     \<Rightarrow> 'vm World \<Rightarrow> fatal + 'vm World" where
  "MapSegment E codeset base_addr segment permissions memory_state w =
     (let (r, vm) = vm_MapMemoryBlock E (seg_addr segment + base_addr) (memory codeset)
                      (seg_offset segment) (ucast (seg_size segment)) memory_state
                      (vm_manager (process w))
      in case r of
           Inl code \<Rightarrow> Inl (UnwrapFailed code)
         | Inr vma \<Rightarrow>
             Inr (w\<lparr>process := (process w)
                    \<lparr>vm_manager := vm_Reprotect E vma permissions vm\<rparr>\<rparr>))"

text \<open>\<open>Process::LoadModule\<close>.\<close>

definition LoadModule :: "('vm, 'h) Env \<Rightarrow> CodeSet \<Rightarrow> VAddr \<Rightarrow> 'vm World \<Rightarrow> fatal + 'vm World" where
  "LoadModule E codeset base_addr w =
     and_then (MapSegment E codeset base_addr (CodeSegment codeset) ReadExecute CodeStatic w)
       (\<lambda>w.
     and_then (MapSegment E codeset base_addr (RODataSegment codeset) Read CodeMutable w)
       (\<lambda>w.
     and_then (MapSegment E codeset base_addr (DataSegment codeset) ReadWrite CodeMutable w)
       (\<lambda>w.
     Inr (log_call (ClearInstructionCache 3)
           (log_call (ClearInstructionCache 2)
             (log_call (ClearInstructionCache 1)
               (log_call (ClearInstructionCache 0) w)))))))"

section \<open>Sequences of public operations\<close>

datatype op =
    Op_LoadFromMetadata ProgramMetadata
  | Op_ParseKernelCaps "u32 list"
  | Op_Run VAddr s32 u32
  | Op_PrepareForTermination
  | Op_MarkNextAvailableTLSSlotAsUsed nat
  | Op_FreeTLSSlot VAddr
  | Op_LoadModule CodeSet VAddr
  | Op_HeapAllocate VAddr u64 VMAPermission
  | Op_HeapFree VAddr u32
  | Op_MirrorMemory VAddr VAddr u64 MemoryState
  | Op_UnmapMemory VAddr VAddr u64
  | Op_ClearSignalState
  | Op_Acquire

text \<open>One public operation; what it returns to its caller is dropped.\<close>

fun apply_op :: "('vm, 'h) Env \<Rightarrow> op \<Rightarrow> 'vm World \<Rightarrow> fatal + 'vm World" where
  "apply_op E (Op_LoadFromMetadata metadata) w = Inr (LoadFromMetadata E metadata w)"
| "apply_op E (Op_ParseKernelCaps kernel_caps) w = Inr (ParseKernelCaps E kernel_caps w)"
| "apply_op E (Op_Run entry_point priority stack_size) w =
     Run E entry_point priority stack_size w"
| "apply_op E Op_PrepareForTermination w = PrepareForTermination E w"
| "apply_op E (Op_MarkNextAvailableTLSSlotAsUsed thread) w =
     Inr (snd (MarkNextAvailableTLSSlotAsUsed E thread w))"
| "apply_op E (Op_FreeTLSSlot tls_address) w = FreeTLSSlot E tls_address w"
| "apply_op E (Op_LoadModule codeset base_addr) w = LoadModule E codeset base_addr w"
| "apply_op E (Op_HeapAllocate target sz perms) w = Inr (snd (HeapAllocate E target sz perms w))"
| "apply_op E (Op_HeapFree target sz) w = Inr (snd (HeapFree E target sz w))"
| "apply_op E (Op_MirrorMemory dst_addr src_addr sz st) w =
     Inr (snd (MirrorMemory E dst_addr src_addr sz st w))"
| "apply_op E (Op_UnmapMemory dst_addr src_addr sz) w =
     Inr (snd (UnmapMemory E dst_addr src_addr sz w))"
| "apply_op E Op_ClearSignalState w = Inr (snd (ClearSignalState w))"
| "apply_op E Op_Acquire w = Acquire w"

text \<open>
  A sequence of operations calls \<open>Run\<close> in time when each \<open>Run\<close> in it meets a
  process that is \<open>Created\<close> or \<open>Running\<close>.
\<close>

fun is_Run :: "op \<Rightarrow> bool" where
  "is_Run (Op_Run entry_point priority stack_size) = True"
| "is_Run _ = False"

fun run_in_time :: "('vm, 'h) Env \<Rightarrow> op list \<Rightarrow> 'vm World \<Rightarrow> bool" where
  "run_in_time E [] w = True"
| "run_in_time E (x # xs) w =
     ((is_Run x \<longrightarrow> status (process w) = Created \<or> status (process w) = Running)
      \<and> (case apply_op E x w of Inl e \<Rightarrow> True | Inr w' \<Rightarrow> run_in_time E xs w'))"

text \<open>
  The status the process has after each operation of a sequence, in order; a fatal
  operation ends the sequence.
\<close>

fun statuses :: "('vm, 'h) Env \<Rightarrow> op list \<Rightarrow> 'vm World \<Rightarrow> ProcessStatus list" where
  "statuses E [] w = []"
| "statuses E (x # xs) w =
     (case apply_op E x w of
        Inl e \<Rightarrow> []
      | Inr w' \<Rightarrow> status (process w') # statuses E xs w')"

fun status_rank :: "ProcessStatus \<Rightarrow> nat" where
  "status_rank Created = 0"
| "status_rank Running = 1"
| "status_rank Exiting = 2"
| "status_rank Exited = 3"


section \<open>A reference instance of the collaborators\<close>

text \<open>
  Modelled from the spec: the address-space manager (vm_manager.cpp) is not part of
  process.cpp. The spec asks of it only to map a region, reprotect it, allocate and free
  heap, mirror, unmap, refresh mappings and report the base and end of the TLS/IO region.
  The reference manager keeps the list of mapped regions, each with its base, size,
  memory-state tag and permission; a handle is a position in that list; a new region is
  readable and writable until it is reprotected. The constants are those of a 4 KiB page
  holding eight TLS entries. Of the wake-up the spec says that it wakes every thread
  currently blocked waiting on this process: in the reference instance each such thread
  becomes ready and waits on nothing any more. Of \<open>Stop\<close> the spec says only that the
  thread is stopped: the reference instance gives the thread the status
  \<open>ThreadStatus_Other 0\<close>, which is no blocking wait, and leaves the other threads alone.
\<close>

type_synonym ref_vm = "(VAddr \<times> u64 \<times> MemoryState \<times> VMAPermission) list"

definition ref_reprotect :: "nat \<Rightarrow> VMAPermission \<Rightarrow> ref_vm \<Rightarrow> ref_vm" where
  "ref_reprotect vma perms vm =
     (if vma < length vm
      then vm[vma := (fst (vm ! vma), fst (snd (vm ! vma)), fst (snd (snd (vm ! vma))), perms)]
      else vm)"

definition ref_unmap :: "VAddr \<Rightarrow> ref_vm \<Rightarrow> ref_vm" where
  "ref_unmap target vm = filter (\<lambda>region. fst region \<noteq> target) vm"

definition ref_wakeup :: "u32 \<Rightarrow> (nat \<Rightarrow> Thread) \<Rightarrow> (nat \<Rightarrow> Thread)" where
  "ref_wakeup object_id ths =
     (\<lambda>t. if object_id \<in> set (wait_objects (ths t))
          then (ths t)\<lparr>thread_status := ThreadStatus_Ready, wait_objects := []\<rparr>
          else ths t)"

definition ref_stop :: "nat \<Rightarrow> (nat \<Rightarrow> Thread) \<Rightarrow> (nat \<Rightarrow> Thread)" where
  "ref_stop thread ths =
     ths(thread := (ths thread)\<lparr>thread_status := ThreadStatus_Other 0, wait_objects := []\<rparr>)"

definition ref_Env :: "(ref_vm, nat) Env" where
  "ref_Env =
     \<lparr>PAGE_SIZE = 0x1000,
      TLS_ENTRY_SIZE = 0x200,
      vm_MapMemoryBlock =
        (\<lambda>target block offset sz st vm. (Inr (length vm), vm @ [(target, sz, st, ReadWrite)])),
      vm_Reprotect = ref_reprotect,
      vm_RefreshMemoryBlockMappings = (\<lambda>block vm. vm),
      vm_UnmapRange = (\<lambda>target sz vm. (RESULT_SUCCESS, ref_unmap target vm)),
      vm_HeapAllocate =
        (\<lambda>target sz perms vm. (Inr target, vm @ [(target, sz, MemoryState_Other 0, perms)])),
      vm_HeapFree = (\<lambda>target sz vm. (RESULT_SUCCESS, ref_unmap target vm)),
      vm_MirrorMemory =
        (\<lambda>dst_addr src_addr sz st vm. (RESULT_SUCCESS, vm @ [(dst_addr, sz, st, ReadWrite)])),
      vm_Reset = (\<lambda>kind vm. []),
      vm_GetTLSIORegionBaseAddress = (\<lambda>vm. 0x10000000),
      vm_GetTLSIORegionEndAddress = (\<lambda>vm. 0x20000000),
      flags_memory_region_APPLICATION = 0x100,
      generate_entropy = (\<lambda>seed n. replicate n (of_nat seed)),
      thread_Stop = ref_stop,
      wait_object_WakeupAllWaitingThreads = ref_wakeup\<rparr>"

text \<open>
  A process with id 1 as \<open>Create\<close> leaves it, with a mask of 128 system calls, in a world
  of four threads: thread 0, of this process, is running and is the caller; threads 1 and
  2, of this process, wait on synchronisation objects other than processes; thread 3
  belongs to process 2 and is running.
\<close>

definition example_process :: "ref_vm Process" where
  "example_process =
     \<lparr>name = ''example'', flags_raw = 0x100, resource_limit = 0, status = Created,
      program_id = 0, process_id = 1, svc_access_mask = replicate 128 True,
      random_entropy = [0, 0, 0, 0], is_signaled = False, ideal_processor = 0,
      is_64bit_process = True, handle_table_size = 0x200, kernel_version = 0,
      address_mappings = [], tls_slots = [], vm_manager = []\<rparr>"

definition example_threads :: "nat \<Rightarrow> Thread" where
  "example_threads t =
     (if t = 0
      then \<lparr>owner_process = 1, thread_status = ThreadStatus_Running, tls_memory = [],
            wait_objects = []\<rparr>
      else if t = 1
      then \<lparr>owner_process = 1, thread_status = WaitSynchAny, tls_memory = [],
            wait_objects = []\<rparr>
      else if t = 2
      then \<lparr>owner_process = 1, thread_status = WaitSynchAll, tls_memory = [],
            wait_objects = []\<rparr>
      else \<lparr>owner_process = 2, thread_status = ThreadStatus_Running, tls_memory = [],
            wait_objects = []\<rparr>)"

definition example_world :: "ref_vm World" where
  "example_world =
     \<lparr>process = example_process,
      threads = example_threads,
      scheduler_thread_list = (\<lambda>core. if core = 0 then [0, 1] else if core = 1 then [3, 2] else []),
      current_thread = 0,
      calls = []\<rparr>"

text \<open>
  The same world, except that thread 1 is blocked waiting on the process itself (the
  process with id 1).
\<close>

definition self_waiting_world :: "ref_vm World" where
  "self_waiting_world =
     example_world\<lparr>threads := example_threads(1 := (example_threads 1)\<lparr>wait_objects := [1]\<rparr>)\<rparr>"

text \<open>
  A code set of three four-byte segments over twelve bytes of backing memory, and a
  manager that refuses every mapping.
\<close>

definition example_codeset :: CodeSet where
  "example_codeset =
     \<lparr>CodeSegment = \<lparr>seg_offset = 0, seg_addr = 0, seg_size = 4\<rparr>,
      RODataSegment = \<lparr>seg_offset = 4, seg_addr = 0x1000, seg_size = 4\<rparr>,
      DataSegment = \<lparr>seg_offset = 8, seg_addr = 0x2000, seg_size = 4\<rparr>,
      memory = [0, 0, 0, 0, 0, 0, 0, 0, 0, 0, 0, 0]\<rparr>"

definition refusing_Env :: "(ref_vm, nat) Env" where
  "refusing_Env =
     ref_Env\<lparr>vm_MapMemoryBlock :=
               (\<lambda>target block offset sz st vm. (Inl (ResultCode_Other 1), vm))\<rparr>"

text \<open>A manager with room for \<open>n\<close> regions, which refuses every mapping beyond them.\<close>

definition limited_Env :: "nat \<Rightarrow> (ref_vm, nat) Env" where
  "limited_Env n =
     ref_Env\<lparr>vm_MapMemoryBlock :=
               (\<lambda>target block offset sz st vm.
                  if length vm < n then (Inr (length vm), vm @ [(target, sz, st, ReadWrite)])
                  else (Inl (ResultCode_Other 1), vm))\<rparr>"

section \<open>The loop of \<open>ParseKernelCaps\<close>\<close>

lemma and_refine:
  fixes t :: u32
  assumes "t AND m = p" and "m AND m' = m'"
  shows "t AND m' = p AND m'"
proof -
  have "t AND m' = (t AND m) AND m'"
    using assms(2) by (simp add: and.assoc)
  then show ?thesis using assms(1) by simp
qed

lemma range_not_earlier:
  fixes d :: u32
  assumes "drop_bit 20 d AND 0xFFE = 0xFF8"
  shows "d \<noteq> 0xFFFFFFFF"
    and "drop_bit 20 d AND 0xF00 \<noteq> 0xE00"
    and "drop_bit 20 d AND 0xF80 \<noteq> 0xF00"
    and "drop_bit 20 d AND 0xFF0 \<noteq> 0xFE0"
    and "drop_bit 20 d AND 0xFF8 \<noteq> 0xFF0"
proof -
  show "d \<noteq> 0xFFFFFFFF" using assms by auto
  have "drop_bit 20 d AND 0xF00 = 0xFF8 AND 0xF00"
    by (rule and_refine [OF assms]) simp
  then show "drop_bit 20 d AND 0xF00 \<noteq> 0xE00" by simp
  have "drop_bit 20 d AND 0xF80 = 0xFF8 AND 0xF80"
    by (rule and_refine [OF assms]) simp
  then show "drop_bit 20 d AND 0xF80 \<noteq> 0xF00" by simp
  have "drop_bit 20 d AND 0xFF0 = 0xFF8 AND 0xFF0"
    by (rule and_refine [OF assms]) simp
  then show "drop_bit 20 d AND 0xFF0 \<noteq> 0xFE0" by simp
  have "drop_bit 20 d AND 0xFF8 = 0xFF8 AND 0xFF8"
    by (rule and_refine [OF assms]) simp
  then show "drop_bit 20 d AND 0xFF8 \<noteq> 0xFF0" by simp
qed

lemma ParseKernelCaps_from_step:
  "i < length kernel_caps \<Longrightarrow>
   ParseKernelCaps_from E kernel_caps i w
     = ParseKernelCaps_from E kernel_caps (fst (ParseKernelCaps_body E kernel_caps i w) + 1)
         (snd (ParseKernelCaps_body E kernel_caps i w))"
  by (subst ParseKernelCaps_from.simps) simp

lemma ParseKernelCaps_from_end:
  "length kernel_caps \<le> i \<Longrightarrow> ParseKernelCaps_from E kernel_caps i w = w"
  by (subst ParseKernelCaps_from.simps) simp

lemma iterations_step:
  "i < length kernel_caps \<Longrightarrow>
   ParseKernelCaps_iterations E kernel_caps i w
     = (i, w) # ParseKernelCaps_iterations E kernel_caps
                  (fst (ParseKernelCaps_body E kernel_caps i w) + 1)
                  (snd (ParseKernelCaps_body E kernel_caps i w))"
  by (subst ParseKernelCaps_iterations.simps) simp

lemma iterations_pass:
  "(j, wj) \<in> set (ParseKernelCaps_iterations E kernel_caps i w) \<Longrightarrow>
   ParseKernelCaps_from E kernel_caps i w = ParseKernelCaps_from E kernel_caps j wj"
proof (induction E kernel_caps i w rule: ParseKernelCaps_iterations.induct)
  case (1 E kernel_caps i w)
  show ?case
  proof (cases "i < length kernel_caps")
    case False
    then show ?thesis
      using "1.prems" by (subst (asm) ParseKernelCaps_iterations.simps) simp
  next
    case True
    from "1.prems" have "(j, wj) = (i, w)
        \<or> (j, wj) \<in> set (ParseKernelCaps_iterations E kernel_caps
                            (fst (ParseKernelCaps_body E kernel_caps i w) + 1)
                            (snd (ParseKernelCaps_body E kernel_caps i w)))"
      using True by (subst (asm) ParseKernelCaps_iterations.simps) simp
    then show ?thesis
    proof
      assume "(j, wj) = (i, w)"
      then show ?thesis by simp
    next
      assume "(j, wj) \<in> set (ParseKernelCaps_iterations E kernel_caps
                            (fst (ParseKernelCaps_body E kernel_caps i w) + 1)
                            (snd (ParseKernelCaps_body E kernel_caps i w)))"
      from "1.IH" [OF True this] show ?thesis
        using True by (simp add: ParseKernelCaps_from_step)
    qed
  qed
qed

lemma ParseKernelCaps_Nil: "ParseKernelCaps E [] w = w"
  by (simp add: ParseKernelCaps_def ParseKernelCaps_from_end)

text \<open>
  The body looks at the word at \<open>i\<close> and, when that word is a memory-range descriptor,
  at whether a range descriptor follows it and which: two arrays that agree on these are
  treated alike.
\<close>

lemma body_cong:
  assumes "kernel_caps ! i = kernel_caps' ! i'"
    and "drop_bit 20 (kernel_caps ! i) AND 0xFFE = 0xFF8 \<longrightarrow>
         ((i + 1 < length kernel_caps
            \<and> drop_bit 20 (kernel_caps ! (i + 1)) AND 0xFFE = 0xFF8)
          \<longleftrightarrow> (i' + 1 < length kernel_caps'
            \<and> drop_bit 20 (kernel_caps' ! (i' + 1)) AND 0xFFE = 0xFF8))
         \<and> (i + 1 < length kernel_caps
              \<and> drop_bit 20 (kernel_caps ! (i + 1)) AND 0xFFE = 0xFF8
              \<longrightarrow> kernel_caps ! (i + 1) = kernel_caps' ! (i' + 1))"
  shows "snd (ParseKernelCaps_body E kernel_caps' i' w)
           = snd (ParseKernelCaps_body E kernel_caps i w)"
    and "fst (ParseKernelCaps_body E kernel_caps' i' w) + i
           = fst (ParseKernelCaps_body E kernel_caps i w) + i'"
proof -
  have both: "snd (ParseKernelCaps_body E kernel_caps' i' w)
           = snd (ParseKernelCaps_body E kernel_caps i w)
      \<and> fst (ParseKernelCaps_body E kernel_caps' i' w) + i
           = fst (ParseKernelCaps_body E kernel_caps i w) + i'"
  proof (cases "drop_bit 20 (kernel_caps ! i) AND 0xFFE = 0xFF8")
    case False
    then show ?thesis
      by (simp add: ParseKernelCaps_body_def Let_def assms(1) [symmetric])
  next
    case True
    note n = range_not_earlier [OF True]
    show ?thesis
    proof (cases "i + 1 < length kernel_caps
                  \<and> drop_bit 20 (kernel_caps ! (i + 1)) AND 0xFFE = 0xFF8")
      case p: True
      then have p': "i' + 1 < length kernel_caps'
            \<and> drop_bit 20 (kernel_caps' ! (i' + 1)) AND 0xFFE = 0xFF8"
        and e: "kernel_caps ! (i + 1) = kernel_caps' ! (i' + 1)"
        using assms(2) True by blast+
      show ?thesis
        using n True p p' e
        by (simp add: ParseKernelCaps_body_def Let_def assms(1) [symmetric])
    next
      case q: False
      then have q': "\<not> (i' + 1 < length kernel_caps'
            \<and> drop_bit 20 (kernel_caps' ! (i' + 1)) AND 0xFFE = 0xFF8)"
        using assms(2) True by blast
      have l: "ParseKernelCaps_body E kernel_caps i w
          = (i, log_call
                  (LOG_WARNING ''Incomplete exheader memory range descriptor ignored.'') w)"
        using n True q by (auto simp add: ParseKernelCaps_body_def Let_def)
      have r: "ParseKernelCaps_body E kernel_caps' i' w
          = (i', log_call
                  (LOG_WARNING ''Incomplete exheader memory range descriptor ignored.'') w)"
        using n True q' by (auto simp add: ParseKernelCaps_body_def Let_def assms(1) [symmetric])
      show ?thesis by (simp add: l r)
    qed
  qed
  then show "snd (ParseKernelCaps_body E kernel_caps' i' w)
           = snd (ParseKernelCaps_body E kernel_caps i w)"
    and "fst (ParseKernelCaps_body E kernel_caps' i' w) + i
           = fst (ParseKernelCaps_body E kernel_caps i w) + i'"
    by simp_all
qed

lemma body_fst:
  "fst (ParseKernelCaps_body E kernel_caps i w)
     = (if drop_bit 20 (kernel_caps ! i) AND 0xFFE = 0xFF8 \<and> i + 1 < length kernel_caps
           \<and> drop_bit 20 (kernel_caps ! (i + 1)) AND 0xFFE = 0xFF8
        then i + 1 else i)"
proof (cases "drop_bit 20 (kernel_caps ! i) AND 0xFFE = 0xFF8")
  case True
  show ?thesis
    using range_not_earlier [OF True] True
    by (auto simp add: ParseKernelCaps_body_def Let_def)
next
  case False
  then show ?thesis
    by (simp add: ParseKernelCaps_body_def Let_def)
qed

lemma ParseKernelCaps_from_drop:
  "ParseKernelCaps_from E (drop n kernel_caps) k w = ParseKernelCaps_from E kernel_caps (n + k) w"
proof (induction "length kernel_caps - (n + k)" arbitrary: k w rule: less_induct)
  case less
  show ?case
  proof (cases "n + k < length kernel_caps")
    case False
    then show ?thesis by (simp add: ParseKernelCaps_from_end)
  next
    case True
    let ?b = "ParseKernelCaps_body E kernel_caps (n + k) w"
    let ?b' = "ParseKernelCaps_body E (drop n kernel_caps) k w"
    have c: "snd ?b' = snd ?b" "fst ?b' + (n + k) = fst ?b + k"
      using True
      by (rule_tac [!] body_cong) (auto simp add: add.assoc)
    have ge: "k \<le> fst ?b'"
      using ParseKernelCaps_body_index [of E "drop n kernel_caps" k w] by auto
    have "ParseKernelCaps_from E (drop n kernel_caps) k w
        = ParseKernelCaps_from E (drop n kernel_caps) (fst ?b' + 1) (snd ?b')"
      using True by (simp add: ParseKernelCaps_from_step)
    also have "\<dots> = ParseKernelCaps_from E kernel_caps (n + (fst ?b' + 1)) (snd ?b')"
      using True ge by (intro less) simp
    also have "\<dots> = ParseKernelCaps_from E kernel_caps (fst ?b + 1) (snd ?b)"
      using c by (simp add: add.commute add.left_commute)
    also have "\<dots> = ParseKernelCaps_from E kernel_caps (n + k) w"
      using True by (simp add: ParseKernelCaps_from_step)
    finally show ?thesis .
  qed
qed

lemma ParseKernelCaps_from_suffix:
  "ParseKernelCaps_from E kernel_caps n w = ParseKernelCaps E (drop n kernel_caps) w"
  using ParseKernelCaps_from_drop [of E n kernel_caps 0 w]
  by (simp add: ParseKernelCaps_def)

lemma iterations_bounds:
  "(i, wi) \<in> set (ParseKernelCaps_iterations E kernel_caps j w) \<Longrightarrow>
   j \<le> i \<and> i < length kernel_caps"
proof (induction E kernel_caps j w rule: ParseKernelCaps_iterations.induct)
  case (1 E kernel_caps j w)
  show ?case
  proof (cases "j < length kernel_caps")
    case False
    then show ?thesis
      using "1.prems" by (subst (asm) ParseKernelCaps_iterations.simps) simp
  next
    case True
    from "1.prems" have "(i, wi) = (j, w)
        \<or> (i, wi) \<in> set (ParseKernelCaps_iterations E kernel_caps
                            (fst (ParseKernelCaps_body E kernel_caps j w) + 1)
                            (snd (ParseKernelCaps_body E kernel_caps j w)))"
      using True by (simp add: iterations_step)
    then show ?thesis
    proof
      assume "(i, wi) = (j, w)"
      then show ?thesis using True by simp
    next
      assume "(i, wi) \<in> set (ParseKernelCaps_iterations E kernel_caps
                            (fst (ParseKernelCaps_body E kernel_caps j w) + 1)
                            (snd (ParseKernelCaps_body E kernel_caps j w)))"
      from "1.IH" [OF True this] show ?thesis
        using ParseKernelCaps_body_index [of E kernel_caps j w] by auto
    qed
  qed
qed

text \<open>
  When the loop over an array comes to stand at \<open>i\<close>, the state it has there is what
  parsing the first \<open>i\<close> words alone returns.
\<close>

lemma iterations_prefix:
  "(i, wi) \<in> set (ParseKernelCaps_iterations E kernel_caps j w) \<Longrightarrow>
   wi = ParseKernelCaps_from E (take i kernel_caps) j w"
proof (induction E kernel_caps j w rule: ParseKernelCaps_iterations.induct)
  case (1 E kernel_caps j w)
  show ?case
  proof (cases "j < length kernel_caps")
    case False
    then show ?thesis
      using "1.prems" by (subst (asm) ParseKernelCaps_iterations.simps) simp
  next
    case True
    let ?b = "ParseKernelCaps_body E kernel_caps j w"
    from "1.prems" have "(i, wi) = (j, w)
        \<or> (i, wi) \<in> set (ParseKernelCaps_iterations E kernel_caps (fst ?b + 1) (snd ?b))"
      using True by (simp add: iterations_step)
    then show ?thesis
    proof
      assume "(i, wi) = (j, w)"
      then show ?thesis by (simp add: ParseKernelCaps_from_end)
    next
      assume tail: "(i, wi) \<in> set (ParseKernelCaps_iterations E kernel_caps (fst ?b + 1) (snd ?b))"
      from iterations_bounds [OF tail] have i: "fst ?b + 1 \<le> i" "i < length kernel_caps"
        by simp_all
      have ji: "j < i"
        using i(1) ParseKernelCaps_body_index [of E kernel_caps j w] by auto
      let ?t = "take i kernel_caps"
      let ?bt = "ParseKernelCaps_body E ?t j w"
      have same: "kernel_caps ! j = ?t ! j"
        using ji by simp
      have partner: "drop_bit 20 (kernel_caps ! j) AND 0xFFE = 0xFF8 \<longrightarrow>
         ((j + 1 < length kernel_caps
            \<and> drop_bit 20 (kernel_caps ! (j + 1)) AND 0xFFE = 0xFF8)
          \<longleftrightarrow> (j + 1 < length ?t \<and> drop_bit 20 (?t ! (j + 1)) AND 0xFFE = 0xFF8))
         \<and> (j + 1 < length kernel_caps
              \<and> drop_bit 20 (kernel_caps ! (j + 1)) AND 0xFFE = 0xFF8
              \<longrightarrow> kernel_caps ! (j + 1) = ?t ! (j + 1))"
      proof (cases "j + 1 < i")
        case True
        then show ?thesis using i(2) by simp
      next
        case False
        then have e: "j + 1 = i" using ji by simp
        have "\<not> (drop_bit 20 (kernel_caps ! j) AND 0xFFE = 0xFF8 \<and> j + 1 < length kernel_caps
             \<and> drop_bit 20 (kernel_caps ! (j + 1)) AND 0xFFE = 0xFF8)"
        proof
          assume "drop_bit 20 (kernel_caps ! j) AND 0xFFE = 0xFF8 \<and> j + 1 < length kernel_caps
             \<and> drop_bit 20 (kernel_caps ! (j + 1)) AND 0xFFE = 0xFF8"
          then have "fst ?b = j + 1" by (simp add: body_fst)
          then show False using i(1) e by simp
        qed
        then show ?thesis using e i(2) by auto
      qed
      have c: "snd ?bt = snd ?b" "fst ?bt + j = fst ?b + j"
        by (rule body_cong [OF same partner])+
      have "ParseKernelCaps_from E ?t j w = ParseKernelCaps_from E ?t (fst ?bt + 1) (snd ?bt)"
        using ji i(2) by (simp add: ParseKernelCaps_from_step)
      also have "\<dots> = ParseKernelCaps_from E ?t (fst ?b + 1) (snd ?b)"
        using c by simp
      also have "\<dots> = wi"
        using "1.IH" [OF True tail] by simp
      finally show ?thesis by simp
    qed
  qed
qed

lemma iterations_sub:
  "(i, wi) \<in> set (ParseKernelCaps_iterations E kernel_caps j w) \<Longrightarrow>
   set (ParseKernelCaps_iterations E kernel_caps i wi)
     \<subseteq> set (ParseKernelCaps_iterations E kernel_caps j w)"
proof (induction E kernel_caps j w rule: ParseKernelCaps_iterations.induct)
  case (1 E kernel_caps j w)
  show ?case
  proof (cases "j < length kernel_caps")
    case False
    then show ?thesis
      using "1.prems" by (subst (asm) ParseKernelCaps_iterations.simps) simp
  next
    case True
    let ?b = "ParseKernelCaps_body E kernel_caps j w"
    from "1.prems" have "(i, wi) = (j, w)
        \<or> (i, wi) \<in> set (ParseKernelCaps_iterations E kernel_caps (fst ?b + 1) (snd ?b))"
      using True by (simp add: iterations_step)
    then show ?thesis
    proof
      assume "(i, wi) = (j, w)"
      then show ?thesis by simp
    next
      assume "(i, wi) \<in> set (ParseKernelCaps_iterations E kernel_caps (fst ?b + 1) (snd ?b))"
      from "1.IH" [OF True this] show ?thesis
        using True by (auto simp add: iterations_step [of j])
    qed
  qed
qed

text \<open>
  After standing at \<open>i\<close> the loop next stands at the index its body returns, plus one, and
  at no index in between.
\<close>

lemma iterations_head:
  "i < length kernel_caps \<Longrightarrow> (i, w) \<in> set (ParseKernelCaps_iterations E kernel_caps i w)"
  by (subst iterations_step) simp_all

lemma iterations_next:
  assumes "(i, wi) \<in> set (ParseKernelCaps_iterations E kernel_caps j w)"
    and "fst (ParseKernelCaps_body E kernel_caps i wi) + 1 < length kernel_caps"
  shows "(fst (ParseKernelCaps_body E kernel_caps i wi) + 1,
          snd (ParseKernelCaps_body E kernel_caps i wi))
         \<in> set (ParseKernelCaps_iterations E kernel_caps j w)"
proof -
  let ?b = "ParseKernelCaps_body E kernel_caps i wi"
  have i: "i < length kernel_caps"
    using iterations_bounds [OF assms(1)] by simp
  have "(fst ?b + 1, snd ?b) \<in> set (ParseKernelCaps_iterations E kernel_caps (fst ?b + 1) (snd ?b))"
    by (rule iterations_head [OF assms(2)])
  then have "(fst ?b + 1, snd ?b) \<in> set (ParseKernelCaps_iterations E kernel_caps i wi)"
    by (subst iterations_step [OF i]) simp
  then show ?thesis
    using iterations_sub [OF assms(1)] by blast
qed

lemma iterations_gap:
  "(i, wi) \<in> set (ParseKernelCaps_iterations E kernel_caps j w) \<Longrightarrow>
   (k, wk) \<in> set (ParseKernelCaps_iterations E kernel_caps j w) \<Longrightarrow>
   k \<le> i \<or> fst (ParseKernelCaps_body E kernel_caps i wi) + 1 \<le> k"
proof (induction E kernel_caps j w rule: ParseKernelCaps_iterations.induct)
  case (1 E kernel_caps j w)
  show ?case
  proof (cases "j < length kernel_caps")
    case False
    then show ?thesis
      using "1.prems"(1) by (subst (asm) ParseKernelCaps_iterations.simps) simp
  next
    case True
    let ?b = "ParseKernelCaps_body E kernel_caps j w"
    let ?tail = "set (ParseKernelCaps_iterations E kernel_caps (fst ?b + 1) (snd ?b))"
    have a: "(i, wi) = (j, w) \<or> (i, wi) \<in> ?tail"
      using "1.prems"(1) True by (simp add: iterations_step)
    have b: "(k, wk) = (j, w) \<or> (k, wk) \<in> ?tail"
      using "1.prems"(2) True by (simp add: iterations_step)
    show ?thesis
    proof (cases "(i, wi) = (j, w)")
      case h: True
      from b show ?thesis
      proof
        assume "(k, wk) = (j, w)"
        then show ?thesis using h by simp
      next
        assume "(k, wk) \<in> ?tail"
        from iterations_bounds [OF this] show ?thesis using h by simp
      qed
    next
      case False
      then have it: "(i, wi) \<in> ?tail" using a by blast
      from b show ?thesis
      proof
        assume "(k, wk) = (j, w)"
        then show ?thesis
          using iterations_bounds [OF it] ParseKernelCaps_body_index [of E kernel_caps j w]
          by auto
      next
        assume "(k, wk) \<in> ?tail"
        from "1.IH" [OF True it this] show ?thesis .
      qed
    qed
  qed
qed

lemma iterations_start:
  "kernel_caps \<noteq> [] \<Longrightarrow> (0, w) \<in> set (ParseKernelCaps_iterations E kernel_caps 0 w)"
  by (rule iterations_head) simp

section \<open>Capability descriptors: the allowed-syscalls mask\<close>

lemma svc_loop_length: "length (svc_loop bits index access_mask) = length access_mask"
proof (induction bits index access_mask rule: svc_loop.induct)
  case (1 bits index access_mask)
  then show ?case by (subst svc_loop.simps) simp
qed

lemma svc_loop_nth:
  "j < length access_mask \<Longrightarrow>
   svc_loop bits index access_mask ! j
     = (if index \<le> j \<and> drop_bit (j - index) bits \<noteq> 0 then bit bits (j - index)
        else access_mask ! j)"
proof (induction bits index access_mask rule: svc_loop.induct)
  case (1 bits index access_mask)
  show ?case
  proof (cases "bits \<noteq> 0 \<and> index < length access_mask")
    case False
    then show ?thesis using "1.prems" by (subst svc_loop.simps) auto
  next
    case True
    have bit0: "(bits AND 1 \<noteq> 0) = bit bits 0"
      by (simp add: and_one_eq bit_0 mod_2_eq_odd)
    have step: "svc_loop bits index access_mask ! j
        = svc_loop (drop_bit 1 bits) (index + 1) (access_mask[index := (bits AND 1 \<noteq> 0)]) ! j"
      using True by (subst svc_loop.simps) simp
    have ih: "svc_loop (drop_bit 1 bits) (index + 1) (access_mask[index := (bits AND 1 \<noteq> 0)]) ! j
        = (if index + 1 \<le> j \<and> drop_bit (j - (index + 1)) (drop_bit 1 bits) \<noteq> 0
           then bit (drop_bit 1 bits) (j - (index + 1))
           else access_mask[index := (bits AND 1 \<noteq> 0)] ! j)"
      using "1.IH" [OF True] "1.prems" by simp
    consider "j < index" | "j = index" | "index < j" by linarith
    then show ?thesis
    proof cases
      case 1
      then show ?thesis using step ih by simp
    next
      case 2
      then show ?thesis using step ih True bit0 "1.prems" by simp
    next
      case 3
      then have suc: "Suc (j - Suc index) = j - index"
        by simp
      have "drop_bit (j - (index + 1)) (drop_bit 1 bits) = drop_bit (j - index) bits"
        using suc by (simp add: drop_bit_drop_bit)
      moreover have "bit (drop_bit 1 bits) (j - (index + 1)) = bit bits (j - index)"
        using suc by (simp add: bit_drop_bit_eq)
      ultimately show ?thesis using step ih 3 by simp
    qed
  qed
qed

lemma svc_index:
  fixes d :: u32
  shows "unat ((drop_bit 24 d AND 7) * 24) = unat (drop_bit 24 d AND 7) * 24"
proof -
  have "drop_bit 24 d AND 7 \<le> 7"
    by (rule word_and_le1)
  then have "unat (drop_bit 24 d AND 7) \<le> 7"
    by (simp add: word_le_nat_alt)
  then show ?thesis
    by (simp add: unat_word_ariths)
qed

lemma syscall_body:
  assumes "drop_bit 20 (kernel_caps ! i) AND 0xF80 = 0xF00"
  shows "ParseKernelCaps_body E kernel_caps i w
     = (i, w\<lparr>process := (process w)
             \<lparr>svc_access_mask :=
                svc_loop (kernel_caps ! i AND 0xFFFFFF)
                  (unat (drop_bit 24 (kernel_caps ! i) AND 7) * 24)
                  (svc_access_mask (process w))\<rparr>\<rparr>)"
proof -
  have a: "kernel_caps ! i \<noteq> 0xFFFFFFFF"
    using assms by auto
  have "drop_bit 20 (kernel_caps ! i) AND 0xF00 = 0xF00 AND 0xF00"
    by (rule and_refine [OF assms]) simp
  then have b: "drop_bit 20 (kernel_caps ! i) AND 0xF00 \<noteq> 0xE00"
    by simp
  show ?thesis
    using a b assms by (simp add: ParseKernelCaps_body_def Let_def svc_index)
qed

lemma Create_mask:
  "svc_access_mask (process (Create E nm new_id system_limit rng_seed w))
     = replicate (length (svc_access_mask (process w))) True"
  by (simp add: Create_def Let_def map_replicate_const)

lemma iterations_reach:
  "j < length kernel_caps \<Longrightarrow> drop_bit 20 (kernel_caps ! j) AND 0xFFE \<noteq> 0xFF8 \<Longrightarrow> i \<le> j
   \<Longrightarrow> \<exists>wj. (j, wj) \<in> set (ParseKernelCaps_iterations E kernel_caps i w)"
proof (induction E kernel_caps i w rule: ParseKernelCaps_iterations.induct)
  case (1 E kernel_caps i w)
  have lt: "i < length kernel_caps"
    using "1.prems" by simp
  show ?case
  proof (cases "i = j")
    case True
    then show ?thesis
      using lt by (subst ParseKernelCaps_iterations.simps) auto
  next
    case False
    have "fst (ParseKernelCaps_body E kernel_caps i w) + 1 \<le> j"
    proof (cases "fst (ParseKernelCaps_body E kernel_caps i w) = i")
      case True
      then show ?thesis using False "1.prems"(3) by simp
    next
      case f: False
      then have "fst (ParseKernelCaps_body E kernel_caps i w) = i + 1"
        using ParseKernelCaps_body_index [of E kernel_caps i w] by simp
      moreover have "j \<noteq> i + 1"
        using f "1.prems"(2) by (auto simp add: body_fst split: if_splits)
      ultimately show ?thesis using False "1.prems"(3) by simp
    qed
    from "1.IH" [OF lt "1.prems"(1) "1.prems"(2) this] obtain wj where
      "(j, wj) \<in> set (ParseKernelCaps_iterations E kernel_caps
                        (fst (ParseKernelCaps_body E kernel_caps i w) + 1)
                        (snd (ParseKernelCaps_body E kernel_caps i w)))"
      by blast
    then show ?thesis
      using lt by (subst ParseKernelCaps_iterations.simps) auto
  qed
qed

lemma syscall_not_range:
  fixes t :: u32
  assumes "t AND 0xF80 = 0xF00"
  shows "t AND 0xFFE \<noteq> 0xFF8"
proof
  assume r: "t AND 0xFFE = 0xFF8"
  have "t AND 0xF80 = 0xFF8 AND 0xF80"
    by (rule and_refine [OF r]) simp
  then show False using assms by simp
qed

text \<open>
  C2. Let the word at index \<open>i\<close> of the array be an allowed-syscalls mask, with group
  \<open>g\<close> (bits 24 to 26) and field \<open>f\<close> (the low 24 bits). What \<open>ParseKernelCaps\<close>
  returns for the array is what it returns for the words after \<open>i\<close>, started in the state
  it returns for the words before \<open>i\<close> with nothing changed but the mask. The mask keeps
  its size; index \<open>g * 24 + k\<close> of it holds bit \<open>k\<close> of \<open>f\<close> for every \<open>k\<close> such that
  \<open>f\<close> still has a set bit at or above \<open>k\<close> and the index is in range, and every other
  index holds what it held before. For the empty array \<open>ParseKernelCaps\<close> returns the
  state it is given, and \<open>Create\<close> sets every bit of the mask.
\<close>

theorem syscall_mask_descriptor:
  "(\<forall>i < length kernel_caps.
      drop_bit 20 (kernel_caps ! i) AND 0xF80 = 0xF00 \<longrightarrow>
      (\<exists>m'. ParseKernelCaps E kernel_caps w
              = ParseKernelCaps E (drop (i + 1) kernel_caps)
                  ((ParseKernelCaps E (take i kernel_caps) w)
                     \<lparr>process := (process (ParseKernelCaps E (take i kernel_caps) w))
                        \<lparr>svc_access_mask := m'\<rparr>\<rparr>)
         \<and> length m'
             = length (svc_access_mask (process (ParseKernelCaps E (take i kernel_caps) w)))
         \<and> (\<forall>j < length m'.
               m' ! j =
                 (let g = unat (drop_bit 24 (kernel_caps ! i) AND 7);
                      f = kernel_caps ! i AND 0xFFFFFF
                  in if g * 24 \<le> j \<and> drop_bit (j - g * 24) f \<noteq> 0
                     then bit f (j - g * 24)
                     else svc_access_mask
                            (process (ParseKernelCaps E (take i kernel_caps) w)) ! j))))
   \<and> ParseKernelCaps E [] w = w
   \<and> svc_access_mask (process (Create E nm new_id system_limit rng_seed w0))
       = replicate (length (svc_access_mask (process w0))) True"
  (is "?parse \<and> ?empty \<and> ?create")
proof (intro conjI)
  show ?parse
  proof (intro allI impI)
    fix i
    assume i: "i < length kernel_caps"
      and c: "drop_bit 20 (kernel_caps ! i) AND 0xF80 = 0xF00"
    let ?w1 = "ParseKernelCaps E (take i kernel_caps) w"
    let ?m = "svc_loop (kernel_caps ! i AND 0xFFFFFF)
                (unat (drop_bit 24 (kernel_caps ! i) AND 7) * 24)
                (svc_access_mask (process ?w1))"
    from iterations_reach [OF i syscall_not_range [OF c], of 0 E w] obtain wi where
      wi: "(i, wi) \<in> set (ParseKernelCaps_iterations E kernel_caps 0 w)"
      by blast
    have pre: "wi = ?w1"
      using iterations_prefix [OF wi] by (simp add: ParseKernelCaps_def)
    have "ParseKernelCaps E kernel_caps w = ParseKernelCaps_from E kernel_caps i ?w1"
      using iterations_pass [OF wi] pre by (simp add: ParseKernelCaps_def)
    also have "\<dots> = ParseKernelCaps_from E kernel_caps (i + 1)
                       (?w1\<lparr>process := (process ?w1)\<lparr>svc_access_mask := ?m\<rparr>\<rparr>)"
      using i c by (simp add: ParseKernelCaps_from_step syscall_body)
    also have "\<dots> = ParseKernelCaps E (drop (i + 1) kernel_caps)
                       (?w1\<lparr>process := (process ?w1)\<lparr>svc_access_mask := ?m\<rparr>\<rparr>)"
      by (rule ParseKernelCaps_from_suffix)
    finally have run: "ParseKernelCaps E kernel_caps w
        = ParseKernelCaps E (drop (i + 1) kernel_caps)
            (?w1\<lparr>process := (process ?w1)\<lparr>svc_access_mask := ?m\<rparr>\<rparr>)" .
    moreover have "length ?m = length (svc_access_mask (process ?w1))"
      by (rule svc_loop_length)
    moreover have "\<forall>j < length ?m. ?m ! j =
                 (let g = unat (drop_bit 24 (kernel_caps ! i) AND 7);
                      f = kernel_caps ! i AND 0xFFFFFF
                  in if g * 24 \<le> j \<and> drop_bit (j - g * 24) f \<noteq> 0
                     then bit f (j - g * 24)
                     else svc_access_mask (process ?w1) ! j)"
      by (simp add: svc_loop_length svc_loop_nth Let_def)
    ultimately show "\<exists>m'. ParseKernelCaps E kernel_caps w
              = ParseKernelCaps E (drop (i + 1) kernel_caps)
                  (?w1\<lparr>process := (process ?w1)\<lparr>svc_access_mask := m'\<rparr>\<rparr>)
         \<and> length m' = length (svc_access_mask (process ?w1))
         \<and> (\<forall>j < length m'.
               m' ! j =
                 (let g = unat (drop_bit 24 (kernel_caps ! i) AND 7);
                      f = kernel_caps ! i AND 0xFFFFFF
                  in if g * 24 \<le> j \<and> drop_bit (j - g * 24) f \<noteq> 0
                     then bit f (j - g * 24)
                     else svc_access_mask (process ?w1) ! j))"
      by blast
  qed
next
  show ?empty by (rule ParseKernelCaps_Nil)
next
  show ?create by (rule Create_mask)
qed

theorem syscall_mask_descriptor_witness:
  "\<exists>m'. ParseKernelCaps ref_Env [0xF2000005] example_world
           = example_world\<lparr>process := example_process\<lparr>svc_access_mask := m'\<rparr>\<rparr>
      \<and> length m' = 128
      \<and> m' ! 47 = True \<and> m' ! 48 = True \<and> m' ! 49 = False \<and> m' ! 50 = True
      \<and> m' ! 51 = True"
proof -
  have h: "drop_bit 20 ([0xF2000005 :: u32] ! 0) AND 0xF80 = 0xF00"
    by simp
  have e: "ParseKernelCaps ref_Env [] example_world = example_world"
    by (rule syscall_mask_descriptor [of "[0xF2000005]" ref_Env example_world,
          THEN conjunct2, THEN conjunct1])
  obtain m' where
    run: "ParseKernelCaps ref_Env [0xF2000005] example_world
           = ParseKernelCaps ref_Env (drop (0 + 1) [0xF2000005])
               ((ParseKernelCaps ref_Env (take 0 [0xF2000005]) example_world)
                  \<lparr>process := (process (ParseKernelCaps ref_Env (take 0 [0xF2000005])
                                            example_world))
                     \<lparr>svc_access_mask := m'\<rparr>\<rparr>)"
    and len: "length m' = length (svc_access_mask
                 (process (ParseKernelCaps ref_Env (take 0 [0xF2000005]) example_world)))"
    and nth: "\<forall>j < length m'.
               m' ! j =
                 (let g = unat (drop_bit 24 ([0xF2000005 :: u32] ! 0) AND 7);
                      f = [0xF2000005 :: u32] ! 0 AND 0xFFFFFF
                  in if g * 24 \<le> j \<and> drop_bit (j - g * 24) f \<noteq> 0
                     then bit f (j - g * 24)
                     else svc_access_mask
                            (process (ParseKernelCaps ref_Env (take 0 [0xF2000005])
                                        example_world)) ! j)"
    using syscall_mask_descriptor [of "[0xF2000005]" ref_Env example_world,
        THEN conjunct1, rule_format, of 0, OF _ h]
    by auto
  have run': "ParseKernelCaps ref_Env [0xF2000005] example_world
           = example_world\<lparr>process := example_process\<lparr>svc_access_mask := m'\<rparr>\<rparr>"
    using run by (simp add: e ParseKernelCaps_Nil example_world_def)
  have len': "length m' = 128"
    using len by (simp add: ParseKernelCaps_Nil example_world_def example_process_def)
  have vals: "(drop_bit 24 (4060086277 :: u32) AND 7) = 2" "(4060086277 :: u32) AND 0xFFFFFF = 5"
    by simp_all
  have "m' ! 47 = True" "m' ! 48 = True" "m' ! 49 = False" "m' ! 50 = True" "m' ! 51 = True"
    using nth [rule_format, of 47] nth [rule_format, of 48] nth [rule_format, of 49]
      nth [rule_format, of 50] nth [rule_format, of 51] len'
    by (simp_all add: vals Let_def ParseKernelCaps_Nil example_world_def example_process_def
        bit_iff_odd)
  then show ?thesis using run' len' by auto
qed

section \<open>Capability descriptors: mapped memory ranges\<close>

lemma bit20: "(d AND 0x100000 \<noteq> 0) = bit (d :: u32) 20"
proof -
  have "(0x100000 :: u32) = 2 ^ 20" by simp
  then show ?thesis by (simp only: and_exp_eq_0_iff_not_bit) simp
qed

lemma range_body_pair:
  assumes "drop_bit 20 (kernel_caps ! i) AND 0xFFE = 0xFF8"
    and "i + 1 < length kernel_caps"
    and "drop_bit 20 (kernel_caps ! (i + 1)) AND 0xFFE = 0xFF8"
  shows "ParseKernelCaps_body E kernel_caps i w
     = (i + 1,
        w\<lparr>process := (process w)
           \<lparr>address_mappings := address_mappings (process w)
              @ [\<lparr>address = ucast (push_bit 12 (kernel_caps ! i) :: u32),
                  size_of =
                    (if (ucast (push_bit 12 (kernel_caps ! i) :: u32) :: u64)
                          < ucast (push_bit 12 (kernel_caps ! (i + 1)) :: u32)
                     then ucast (push_bit 12 (kernel_caps ! (i + 1)) :: u32)
                            - ucast (push_bit 12 (kernel_caps ! i) :: u32)
                     else 0),
                  read_only = bit (kernel_caps ! i) 20,
                  unk_flag = bit (kernel_caps ! (i + 1)) 20\<rparr>]\<rparr>\<rparr>)"
  using range_not_earlier [OF assms(1)] assms
  by (simp add: ParseKernelCaps_body_def Let_def bit20)

lemma range_body_alone:
  assumes "drop_bit 20 (kernel_caps ! i) AND 0xFFE = 0xFF8"
    and "\<not> (i + 1 < length kernel_caps
            \<and> drop_bit 20 (kernel_caps ! (i + 1)) AND 0xFFE = 0xFF8)"
  shows "ParseKernelCaps_body E kernel_caps i w
     = (i, log_call (LOG_WARNING ''Incomplete exheader memory range descriptor ignored.'') w)"
  using range_not_earlier [OF assms(1)] assms
  by (auto simp add: ParseKernelCaps_body_def Let_def)

lemma unat_ucast_32_64: "unat (ucast (x :: u32) :: u64) = unat x"
proof -
  have "unat x < 2 ^ 32" using unsigned_less [of x, where ?'a = nat] by simp
  then have "unat x < 2 ^ 64" by simp
  then show ?thesis by (simp add: unsigned_ucast_eq take_bit_nat_eq_self)
qed

lemma range_size:
  "unat (if (ucast (a :: u32) :: u64) < ucast (b :: u32) then (ucast b :: u64) - ucast a else 0)
     = (if unat a < unat b then unat b - unat a else 0)"
proof (cases "(ucast a :: u64) < ucast b")
  case True
  then have "unat a < unat b"
    by (simp add: word_less_nat_alt unat_ucast_32_64)
  moreover have "unat ((ucast b :: u64) - ucast a) = unat b - unat a"
    using True by (simp add: unat_sub word_le_nat_alt word_less_nat_alt unat_ucast_32_64)
  ultimately show ?thesis using True by simp
next
  case False
  then have "\<not> unat a < unat b"
    by (simp add: word_less_nat_alt unat_ucast_32_64)
  then show ?thesis using False by simp
qed

text \<open>
  C3. Let the loop of \<open>ParseKernelCaps\<close> over the array come to stand at index \<open>i\<close>, in
  state \<open>wi\<close>, and let the word there be a mapped-memory-range descriptor. Then \<open>wi\<close> is
  what parsing the words before \<open>i\<close> returns. If the next word exists and is a range
  descriptor too, what \<open>ParseKernelCaps\<close> returns for the array is what it returns for
  the words after these two, started in \<open>wi\<close> with exactly one mapping appended: its
  address is the first word shifted left by 12 in 32 bits, its size is the distance to the
  second word shifted likewise when that end lies above the address and 0 otherwise,
  \<open>read_only\<close> is bit 20 of the first word and \<open>unk_flag\<close> bit 20 of the second; the loop
  never stands at \<open>i + 1\<close>, and stands at \<open>i + 2\<close> next, in that state, when there is
  such a word. Otherwise what \<open>ParseKernelCaps\<close> returns is what it
  returns for the words after \<open>i\<close>, started in \<open>wi\<close> with nothing changed but one warning
  logged, and the loop stands at \<open>i + 1\<close> next when there is such a word. For the empty
  array \<open>ParseKernelCaps\<close> returns the state it is given; over any other array the loop
  first stands at index 0 in that state.
\<close>

theorem memory_range_descriptor:
  "(\<forall>i wi.
      (i, wi) \<in> set (ParseKernelCaps_iterations E kernel_caps 0 w)
      \<and> drop_bit 20 (kernel_caps ! i) AND 0xFFE = 0xFF8 \<longrightarrow>
      wi = ParseKernelCaps E (take i kernel_caps) w
      \<and> (if i + 1 < length kernel_caps
             \<and> drop_bit 20 (kernel_caps ! (i + 1)) AND 0xFFE = 0xFF8
          then
            (\<exists>m. ParseKernelCaps E kernel_caps w
                   = ParseKernelCaps E (drop (i + 2) kernel_caps)
                       (wi\<lparr>process := (process wi)
                           \<lparr>address_mappings := address_mappings (process wi) @ [m]\<rparr>\<rparr>)
               \<and> unat (address m) = (unat (kernel_caps ! i) * 2 ^ 12) mod 2 ^ 32
               \<and> unat (size_of m) =
                   (let start = (unat (kernel_caps ! i) * 2 ^ 12) mod 2 ^ 32;
                        end_address = (unat (kernel_caps ! (i + 1)) * 2 ^ 12) mod 2 ^ 32
                    in if start < end_address then end_address - start else 0)
               \<and> read_only m = bit (kernel_caps ! i) 20
               \<and> unk_flag m = bit (kernel_caps ! (i + 1)) 20
               \<and> (i + 2 < length kernel_caps \<longrightarrow>
                    (i + 2,
                     wi\<lparr>process := (process wi)
                         \<lparr>address_mappings := address_mappings (process wi) @ [m]\<rparr>\<rparr>)
                    \<in> set (ParseKernelCaps_iterations E kernel_caps 0 w)))
            \<and> (\<forall>w'. (i + 1, w') \<notin> set (ParseKernelCaps_iterations E kernel_caps 0 w))
          else
            ParseKernelCaps E kernel_caps w
              = ParseKernelCaps E (drop (i + 1) kernel_caps)
                  (wi\<lparr>calls := calls wi
                      @ [LOG_WARNING ''Incomplete exheader memory range descriptor ignored.'']\<rparr>)
            \<and> (i + 1 < length kernel_caps \<longrightarrow>
                 (i + 1,
                  wi\<lparr>calls := calls wi
                      @ [LOG_WARNING ''Incomplete exheader memory range descriptor ignored.'']\<rparr>)
                 \<in> set (ParseKernelCaps_iterations E kernel_caps 0 w))))
   \<and> ParseKernelCaps E [] w = w
   \<and> (kernel_caps \<noteq> [] \<longrightarrow> (0, w) \<in> set (ParseKernelCaps_iterations E kernel_caps 0 w))"
  (is "?range \<and> ?empty \<and> ?start")
proof (intro conjI)
  show ?range
  proof (intro allI impI, elim conjE)
    fix i wi
    assume wi: "(i, wi) \<in> set (ParseKernelCaps_iterations E kernel_caps 0 w)"
      and r: "drop_bit 20 (kernel_caps ! i) AND 0xFFE = 0xFF8"
    have i: "i < length kernel_caps"
      using iterations_bounds [OF wi] by simp
    have pre: "wi = ParseKernelCaps E (take i kernel_caps) w"
      using iterations_prefix [OF wi] by (simp add: ParseKernelCaps_def)
    have pass: "ParseKernelCaps E kernel_caps w = ParseKernelCaps_from E kernel_caps i wi"
      using iterations_pass [OF wi] by (simp add: ParseKernelCaps_def)
    have branch: "if i + 1 < length kernel_caps
             \<and> drop_bit 20 (kernel_caps ! (i + 1)) AND 0xFFE = 0xFF8
          then
            (\<exists>m. ParseKernelCaps E kernel_caps w
                   = ParseKernelCaps E (drop (i + 2) kernel_caps)
                       (wi\<lparr>process := (process wi)
                           \<lparr>address_mappings := address_mappings (process wi) @ [m]\<rparr>\<rparr>)
               \<and> unat (address m) = (unat (kernel_caps ! i) * 2 ^ 12) mod 2 ^ 32
               \<and> unat (size_of m) =
                   (let start = (unat (kernel_caps ! i) * 2 ^ 12) mod 2 ^ 32;
                        end_address = (unat (kernel_caps ! (i + 1)) * 2 ^ 12) mod 2 ^ 32
                    in if start < end_address then end_address - start else 0)
               \<and> read_only m = bit (kernel_caps ! i) 20
               \<and> unk_flag m = bit (kernel_caps ! (i + 1)) 20
               \<and> (i + 2 < length kernel_caps \<longrightarrow>
                    (i + 2,
                     wi\<lparr>process := (process wi)
                         \<lparr>address_mappings := address_mappings (process wi) @ [m]\<rparr>\<rparr>)
                    \<in> set (ParseKernelCaps_iterations E kernel_caps 0 w)))
            \<and> (\<forall>w'. (i + 1, w') \<notin> set (ParseKernelCaps_iterations E kernel_caps 0 w))
          else
            ParseKernelCaps E kernel_caps w
              = ParseKernelCaps E (drop (i + 1) kernel_caps)
                  (wi\<lparr>calls := calls wi
                      @ [LOG_WARNING ''Incomplete exheader memory range descriptor ignored.'']\<rparr>)
            \<and> (i + 1 < length kernel_caps \<longrightarrow>
                 (i + 1,
                  wi\<lparr>calls := calls wi
                      @ [LOG_WARNING ''Incomplete exheader memory range descriptor ignored.'']\<rparr>)
                 \<in> set (ParseKernelCaps_iterations E kernel_caps 0 w))"
    proof (cases "i + 1 < length kernel_caps
                  \<and> drop_bit 20 (kernel_caps ! (i + 1)) AND 0xFFE = 0xFF8")
      case True
      let ?a = "push_bit 12 (kernel_caps ! i) :: u32"
      let ?b = "push_bit 12 (kernel_caps ! (i + 1)) :: u32"
      let ?m = "\<lparr>address = ucast ?a,
                 size_of = (if (ucast ?a :: u64) < ucast ?b then ucast ?b - ucast ?a else 0),
                 read_only = bit (kernel_caps ! i) 20,
                 unk_flag = bit (kernel_caps ! (i + 1)) 20\<rparr>"
      have body: "ParseKernelCaps_body E kernel_caps i wi
          = (i + 1, wi\<lparr>process := (process wi)
                       \<lparr>address_mappings := address_mappings (process wi) @ [?m]\<rparr>\<rparr>)"
        using range_body_pair [of kernel_caps i E wi] r True by simp
      have "ParseKernelCaps_from E kernel_caps i wi
          = ParseKernelCaps_from E kernel_caps (i + 2)
              (wi\<lparr>process := (process wi)
                 \<lparr>address_mappings := address_mappings (process wi) @ [?m]\<rparr>\<rparr>)"
        using i by (simp add: ParseKernelCaps_from_step body)
      then have run: "ParseKernelCaps E kernel_caps w
          = ParseKernelCaps E (drop (i + 2) kernel_caps)
              (wi\<lparr>process := (process wi)
                 \<lparr>address_mappings := address_mappings (process wi) @ [?m]\<rparr>\<rparr>)"
        using pass by (simp only: ParseKernelCaps_from_suffix)
      have ua: "unat ?a = (unat (kernel_caps ! i) * 2 ^ 12) mod 2 ^ 32"
        and ub: "unat ?b = (unat (kernel_caps ! (i + 1)) * 2 ^ 12) mod 2 ^ 32"
        by (simp_all add: push_bit_eq_mult unat_word_ariths)
      have addr: "unat (address ?m) = (unat (kernel_caps ! i) * 2 ^ 12) mod 2 ^ 32"
        using ua by (simp add: unat_ucast_32_64)
      have sz: "unat (size_of ?m) =
                 (let start = (unat (kernel_caps ! i) * 2 ^ 12) mod 2 ^ 32;
                      end_address = (unat (kernel_caps ! (i + 1)) * 2 ^ 12) mod 2 ^ 32
                  in if start < end_address then end_address - start else 0)"
        using range_size [of ?a ?b] ua ub by (simp add: Let_def)
      have "read_only ?m = bit (kernel_caps ! i) 20"
        "unk_flag ?m = bit (kernel_caps ! (i + 1)) 20"
        by simp_all
      moreover have "i + 2 < length kernel_caps \<longrightarrow>
                    (i + 2,
                     wi\<lparr>process := (process wi)
                         \<lparr>address_mappings := address_mappings (process wi) @ [?m]\<rparr>\<rparr>)
                    \<in> set (ParseKernelCaps_iterations E kernel_caps 0 w)"
        using iterations_next [OF wi] by (simp add: body)
      moreover note run addr sz
      ultimately have ex:
        "\<exists>m. ParseKernelCaps E kernel_caps w
                   = ParseKernelCaps E (drop (i + 2) kernel_caps)
                       (wi\<lparr>process := (process wi)
                           \<lparr>address_mappings := address_mappings (process wi) @ [m]\<rparr>\<rparr>)
               \<and> unat (address m) = (unat (kernel_caps ! i) * 2 ^ 12) mod 2 ^ 32
               \<and> unat (size_of m) =
                   (let start = (unat (kernel_caps ! i) * 2 ^ 12) mod 2 ^ 32;
                        end_address = (unat (kernel_caps ! (i + 1)) * 2 ^ 12) mod 2 ^ 32
                    in if start < end_address then end_address - start else 0)
               \<and> read_only m = bit (kernel_caps ! i) 20
               \<and> unk_flag m = bit (kernel_caps ! (i + 1)) 20
               \<and> (i + 2 < length kernel_caps \<longrightarrow>
                    (i + 2,
                     wi\<lparr>process := (process wi)
                         \<lparr>address_mappings := address_mappings (process wi) @ [m]\<rparr>\<rparr>)
                    \<in> set (ParseKernelCaps_iterations E kernel_caps 0 w))"
        by blast
      have skip: "\<forall>w'. (i + 1, w') \<notin> set (ParseKernelCaps_iterations E kernel_caps 0 w)"
      proof (intro allI notI)
        fix w'
        assume "(i + 1, w') \<in> set (ParseKernelCaps_iterations E kernel_caps 0 w)"
        from iterations_gap [OF wi this] show False
          by (simp add: body)
      qed
      from ex skip show ?thesis
        by (simp only: if_P [OF True] simp_thms)
    next
      case False
      have body: "ParseKernelCaps_body E kernel_caps i wi
          = (i, log_call
                  (LOG_WARNING ''Incomplete exheader memory range descriptor ignored.'') wi)"
        using range_body_alone [of kernel_caps i E wi] r False by blast
      then have "ParseKernelCaps_from E kernel_caps i wi
            = ParseKernelCaps_from E kernel_caps (i + 1)
                (wi\<lparr>calls := calls wi
                   @ [LOG_WARNING ''Incomplete exheader memory range descriptor ignored.'']\<rparr>)"
        using i by (simp add: ParseKernelCaps_from_step log_call_def)
      then have run: "ParseKernelCaps E kernel_caps w
            = ParseKernelCaps E (drop (i + 1) kernel_caps)
                (wi\<lparr>calls := calls wi
                   @ [LOG_WARNING ''Incomplete exheader memory range descriptor ignored.'']\<rparr>)"
        using pass by (simp only: ParseKernelCaps_from_suffix)
      have nxt: "i + 1 < length kernel_caps \<longrightarrow>
                 (i + 1,
                  wi\<lparr>calls := calls wi
                      @ [LOG_WARNING ''Incomplete exheader memory range descriptor ignored.'']\<rparr>)
                 \<in> set (ParseKernelCaps_iterations E kernel_caps 0 w)"
      proof
        assume "i + 1 < length kernel_caps"
        then show "(i + 1,
                  wi\<lparr>calls := calls wi
                      @ [LOG_WARNING ''Incomplete exheader memory range descriptor ignored.'']\<rparr>)
                 \<in> set (ParseKernelCaps_iterations E kernel_caps 0 w)"
          using iterations_next [OF wi] by (simp add: body log_call_def)
      qed
      from run nxt show ?thesis
        by (simp only: if_not_P [OF False] simp_thms)
    qed
    from pre branch
    show "wi = ParseKernelCaps E (take i kernel_caps) w
      \<and> (if i + 1 < length kernel_caps
             \<and> drop_bit 20 (kernel_caps ! (i + 1)) AND 0xFFE = 0xFF8
          then
            (\<exists>m. ParseKernelCaps E kernel_caps w
                   = ParseKernelCaps E (drop (i + 2) kernel_caps)
                       (wi\<lparr>process := (process wi)
                           \<lparr>address_mappings := address_mappings (process wi) @ [m]\<rparr>\<rparr>)
               \<and> unat (address m) = (unat (kernel_caps ! i) * 2 ^ 12) mod 2 ^ 32
               \<and> unat (size_of m) =
                   (let start = (unat (kernel_caps ! i) * 2 ^ 12) mod 2 ^ 32;
                        end_address = (unat (kernel_caps ! (i + 1)) * 2 ^ 12) mod 2 ^ 32
                    in if start < end_address then end_address - start else 0)
               \<and> read_only m = bit (kernel_caps ! i) 20
               \<and> unk_flag m = bit (kernel_caps ! (i + 1)) 20
               \<and> (i + 2 < length kernel_caps \<longrightarrow>
                    (i + 2,
                     wi\<lparr>process := (process wi)
                         \<lparr>address_mappings := address_mappings (process wi) @ [m]\<rparr>\<rparr>)
                    \<in> set (ParseKernelCaps_iterations E kernel_caps 0 w)))
            \<and> (\<forall>w'. (i + 1, w') \<notin> set (ParseKernelCaps_iterations E kernel_caps 0 w))
          else
            ParseKernelCaps E kernel_caps w
              = ParseKernelCaps E (drop (i + 1) kernel_caps)
                  (wi\<lparr>calls := calls wi
                      @ [LOG_WARNING ''Incomplete exheader memory range descriptor ignored.'']\<rparr>)
            \<and> (i + 1 < length kernel_caps \<longrightarrow>
                 (i + 1,
                  wi\<lparr>calls := calls wi
                      @ [LOG_WARNING ''Incomplete exheader memory range descriptor ignored.'']\<rparr>)
                 \<in> set (ParseKernelCaps_iterations E kernel_caps 0 w)))"
      by (rule conjI)
  qed
next
  show ?empty by (rule ParseKernelCaps_Nil)
next
  show ?start using iterations_start [of kernel_caps w E] by blast
qed

theorem memory_range_descriptor_witness:
  "(\<exists>m. ParseKernelCaps ref_Env [0xFF900001, 0xFF800003] example_world
          = example_world\<lparr>process := example_process\<lparr>address_mappings := [m]\<rparr>\<rparr>
      \<and> unat (address m) = 0x1000 \<and> unat (size_of m) = 0x2000
      \<and> read_only m = True \<and> unk_flag m = False)
   \<and> (\<exists>m. ParseKernelCaps ref_Env [0xFF800001, 0xFF800002, 0xFF800003] example_world
          = example_world
              \<lparr>process := example_process\<lparr>address_mappings := [m]\<rparr>,
               calls := [LOG_WARNING ''Incomplete exheader memory range descriptor ignored.'']\<rparr>
      \<and> unat (address m) = 0x1000 \<and> unat (size_of m) = 0x1000)"
proof -
  have bits: "bit (0xFF900001 :: u32) 20 = True" "bit (0xFF800003 :: u32) 20 = False"
    by (simp_all add: bit_iff_odd)
  have ex: "process example_world = example_process" "calls example_world = []"
    "address_mappings example_process = []"
    by (simp_all add: example_world_def example_process_def)
  let ?two = "[0xFF900001, 0xFF800003] :: u32 list"
  have s2: "(0, example_world) \<in> set (ParseKernelCaps_iterations ref_Env ?two 0 example_world)"
    using memory_range_descriptor [of ref_Env ?two example_world] by simp
  have r2: "drop_bit 20 (?two ! 0) AND 0xFFE = 0xFF8"
    by simp
  have a: "\<exists>m. ParseKernelCaps ref_Env ?two example_world
          = example_world\<lparr>process := example_process\<lparr>address_mappings := [m]\<rparr>\<rparr>
      \<and> unat (address m) = 0x1000 \<and> unat (size_of m) = 0x2000
      \<and> read_only m = True \<and> unk_flag m = False"
    using memory_range_descriptor [of ref_Env ?two example_world, THEN conjunct1, rule_format,
        OF conjI [OF s2 r2], THEN conjunct2]
    by (simp add: bits Let_def ex ParseKernelCaps_Nil)
  let ?three = "[0xFF800001, 0xFF800002, 0xFF800003] :: u32 list"
  have s3: "(0, example_world) \<in> set (ParseKernelCaps_iterations ref_Env ?three 0 example_world)"
    using memory_range_descriptor [of ref_Env ?three example_world] by simp
  have r3: "drop_bit 20 (?three ! 0) AND 0xFFE = 0xFF8"
    by simp
  from memory_range_descriptor [of ref_Env ?three example_world, THEN conjunct1, rule_format,
        OF conjI [OF s3 r3], THEN conjunct2]
  obtain m where
    m: "unat (address m) = 0x1000" "unat (size_of m) = 0x1000"
    and st: "(Suc (Suc 0), example_world\<lparr>process := example_process\<lparr>address_mappings := [m]\<rparr>\<rparr>)
         \<in> set (ParseKernelCaps_iterations ref_Env ?three 0 example_world)"
    by (auto simp add: Let_def ex)
  have r3': "drop_bit 20 (?three ! Suc (Suc 0)) AND 0xFFE = 0xFF8"
    by simp
  have b: "ParseKernelCaps ref_Env ?three example_world
          = example_world
              \<lparr>process := example_process\<lparr>address_mappings := [m]\<rparr>,
               calls := [LOG_WARNING ''Incomplete exheader memory range descriptor ignored.'']\<rparr>"
    using memory_range_descriptor [of ref_Env ?three example_world, THEN conjunct1, rule_format,
        OF conjI [OF st r3'], THEN conjunct2]
    by (simp add: ex ParseKernelCaps_Nil)
  from a b m show ?thesis by blast
qed

section \<open>Signal state, status changes and unmapping\<close>

text \<open>
  C5. \<open>ClearSignalState\<close> returns \<open>ERR_INVALID_STATE\<close> exactly when the status is
  \<open>Exited\<close> or the process is not signaled; then the process is unchanged (the world
  differs by one logged error). Otherwise it returns \<open>RESULT_SUCCESS\<close> and the only change
  is that \<open>is_signaled\<close> is false.
\<close>

theorem ClearSignalState_spec:
  "(fst (ClearSignalState w) = ERR_INVALID_STATE
      \<longleftrightarrow> status (process w) = Exited \<or> \<not> is_signaled (process w))
   \<and> (fst (ClearSignalState w) = ERR_INVALID_STATE \<longrightarrow>
        process (snd (ClearSignalState w)) = process w
        \<and> (\<exists>msg. snd (ClearSignalState w) = w\<lparr>calls := calls w @ [LOG_ERROR msg []]\<rparr>))
   \<and> (fst (ClearSignalState w) \<noteq> ERR_INVALID_STATE \<longrightarrow>
        fst (ClearSignalState w) = RESULT_SUCCESS
        \<and> is_signaled (process (snd (ClearSignalState w))) = False
        \<and> snd (ClearSignalState w) = w\<lparr>process := (process w)\<lparr>is_signaled := False\<rparr>\<rparr>)"
  by (auto simp: ClearSignalState_def)

theorem ClearSignalState_spec_witness:
  "fst (ClearSignalState example_world) = ERR_INVALID_STATE
   \<and> process (snd (ClearSignalState example_world)) = process example_world
   \<and> fst (ClearSignalState (ChangeStatus ref_Env Running example_world)) = RESULT_SUCCESS
   \<and> is_signaled (process (snd (ClearSignalState (ChangeStatus ref_Env Running example_world)))) = False"
proof -
  have a: "status (process example_world) = Exited \<or> \<not> is_signaled (process example_world)"
    by (simp add: example_world_def example_process_def)
  have b: "\<not> (status (process (ChangeStatus ref_Env Running example_world)) = Exited
              \<or> \<not> is_signaled (process (ChangeStatus ref_Env Running example_world)))"
    by (simp add: example_world_def example_process_def ChangeStatus_def Let_def)
  show ?thesis
    using ClearSignalState_spec [of example_world]
      ClearSignalState_spec [of "ChangeStatus ref_Env Running example_world"] a b
    by simp
qed

text \<open>
  C6. \<open>ChangeStatus\<close> with the current status changes nothing. With another status it
  stores it, sets \<open>is_signaled\<close>, and calls \<open>WakeupAllWaitingThreads\<close> once: the trace
  grows by that one call, and the thread objects are what one wake-up of the threads
  waiting on this process makes of them.
\<close>

theorem ChangeStatus_spec:
  "(status (process w) = new_status \<longrightarrow> ChangeStatus E new_status w = w)
   \<and> (status (process w) \<noteq> new_status \<longrightarrow>
        ChangeStatus E new_status w
          = w\<lparr>process := (process w)\<lparr>status := new_status, is_signaled := True\<rparr>,
              threads := wait_object_WakeupAllWaitingThreads E (process_id (process w))
                           (threads w),
              calls := calls w @ [WakeupAllWaitingThreads]\<rparr>
        \<and> count_list (calls (ChangeStatus E new_status w)) WakeupAllWaitingThreads
            = count_list (calls w) WakeupAllWaitingThreads + 1)"
  by (simp add: ChangeStatus_def Let_def)

theorem ChangeStatus_spec_witness:
  "ChangeStatus ref_Env Created example_world = example_world
   \<and> status (process (ChangeStatus ref_Env Running example_world)) = Running
   \<and> is_signaled (process (ChangeStatus ref_Env Running example_world))
   \<and> calls (ChangeStatus ref_Env Running example_world) = [WakeupAllWaitingThreads]"
proof -
  have a: "status (process example_world) = Created"
    by (simp add: example_world_def example_process_def)
  have c: "calls example_world = []"
    by (simp add: example_world_def)
  show ?thesis
    using ChangeStatus_spec [of example_world Created ref_Env]
      ChangeStatus_spec [of example_world Running ref_Env] a c
    by simp
qed

text \<open>
  C10. \<open>UnmapMemory\<close> does not look at \<open>src_addr\<close>: two calls that differ in it only
  are equal, and both are the manager's \<open>UnmapRange\<close> of \<open>dst_addr\<close> and the size.
\<close>

theorem UnmapMemory_src_addr_irrelevant:
  "UnmapMemory E dst_addr src_addr sz w = UnmapMemory E dst_addr src_addr' sz w
   \<and> fst (UnmapMemory E dst_addr src_addr sz w)
       = fst (vm_UnmapRange E dst_addr sz (vm_manager (process w)))
   \<and> snd (UnmapMemory E dst_addr src_addr sz w)
       = w\<lparr>process := (process w)
            \<lparr>vm_manager := snd (vm_UnmapRange E dst_addr sz (vm_manager (process w)))\<rparr>\<rparr>"
  by (simp add: UnmapMemory_def split: prod.splits)

section \<open>Thread-local storage: first fit and its inverse\<close>

lemma bitset_all_iff: "(w :: u8) = - 1 \<longleftrightarrow> (\<forall>slot < 8. bit w slot)"
  by (auto simp add: bit_eq_iff bit_simps)

lemma find_slot_None:
  "find (\<lambda>slot. \<not> bit (w :: u8) slot) [0..<8] = None \<longleftrightarrow> w = - 1"
  by (simp only: find_None_iff bitset_all_iff) auto

lemma find_slot_Some:
  "find (\<lambda>slot. \<not> bit (w :: u8) slot) [0..<8] = Some slot
     \<longleftrightarrow> slot < 8 \<and> \<not> bit w slot \<and> (\<forall>slot' < slot. bit w slot')"
proof -
  have "find (\<lambda>slot. \<not> bit w slot) [0..<8] = Some slot
     \<longleftrightarrow> (\<exists>i < length [0..<8 :: nat]. \<not> bit w ([0..<8] ! i) \<and> slot = [0..<8] ! i
            \<and> (\<forall>j < i. \<not> \<not> bit w ([0..<8] ! j)))"
    by (rule find_Some_iff)
  also have "\<dots> \<longleftrightarrow> slot < 8 \<and> \<not> bit w slot \<and> (\<forall>slot' < slot. bit w slot')"
    by (auto simp del: upt_Suc upt_rec_numeral simp add: nth_upt)
  finally show ?thesis .
qed

lemma FindFree_from_full:
  "\<forall>pg \<in> set slots. pg = - 1 \<Longrightarrow> FindFreeThreadLocalSlot_from page slots = (0, 0, True)"
  by (induction slots arbitrary: page) simp_all

lemma FindFree_from_found:
  "\<not> (\<forall>pg \<in> set slots. pg = - 1) \<Longrightarrow>
   \<exists>k slot. k < length slots \<and> slot < 8 \<and> \<not> bit (slots ! k) slot
      \<and> (\<forall>k' < k. slots ! k' = - 1) \<and> (\<forall>slot' < slot. bit (slots ! k) slot')
      \<and> FindFreeThreadLocalSlot_from page slots = (page + k, slot, False)"
proof (induction slots arbitrary: page)
  case Nil
  then show ?case by simp
next
  case (Cons pg rest)
  show ?case
  proof (cases "pg = - 1")
    case True
    then have "\<not> (\<forall>pg \<in> set rest. pg = - 1)"
      using Cons.prems by simp
    from Cons.IH [OF this, of "page + 1"] obtain k slot where
      k: "k < length rest" "slot < 8" "\<not> bit (rest ! k) slot"
        "\<forall>k' < k. rest ! k' = - 1" "\<forall>slot' < slot. bit (rest ! k) slot'"
        "FindFreeThreadLocalSlot_from (page + 1) rest = (page + 1 + k, slot, False)"
      by blast
    have "\<forall>k' < Suc k. (pg # rest) ! k' = - 1"
      using k(4) True by (auto simp add: nth_Cons split: nat.splits)
    then show ?thesis
      using k True by (intro exI [of _ "Suc k"] exI [of _ slot]) simp
  next
    case False
    then obtain slot where s: "find (\<lambda>slot. \<not> bit pg slot) [0..<8] = Some slot"
      using find_slot_None [of pg] by (cases "find (\<lambda>slot. \<not> bit pg slot) [0..<8]") auto
    have "slot < 8 \<and> \<not> bit pg slot \<and> (\<forall>slot' < slot. bit pg slot')"
      using s find_slot_Some [of pg slot] by blast
    then have "slot < 8" "\<not> bit pg slot" "\<forall>slot' < slot. bit pg slot'"
      by blast+
    moreover have "FindFreeThreadLocalSlot_from page (pg # rest) = (page + 0, slot, False)"
      using False s by simp
    ultimately show ?thesis
      by (intro exI [of _ 0] exI [of _ slot]) auto
  qed
qed

lemma Mark_full:
  assumes "FindFreeThreadLocalSlot (tls_slots (process w)) = (pg, sl, True)"
  shows "fst (MarkNextAvailableTLSSlotAsUsed E thread w)
           = vm_GetTLSIORegionBaseAddress E (vm_manager (process w))
               + of_nat (length (tls_slots (process w))) * PAGE_SIZE E
               + of_nat 0 * TLS_ENTRY_SIZE E"
    and "tls_slots (process (snd (MarkNextAvailableTLSSlotAsUsed E thread w)))
           = tls_slots (process w) @ [set_bit 0 0]"
  using assms
  by (simp_all add: MarkNextAvailableTLSSlotAsUsed_def Let_def split: prod.splits)

lemma Mark_found:
  assumes "FindFreeThreadLocalSlot (tls_slots (process w)) = (pg, sl, False)"
  shows "MarkNextAvailableTLSSlotAsUsed E thread w
           = (vm_GetTLSIORegionBaseAddress E (vm_manager (process w))
               + of_nat pg * PAGE_SIZE E + of_nat sl * TLS_ENTRY_SIZE E,
              w\<lparr>process := (process w)
                 \<lparr>tls_slots := (tls_slots (process w))
                    [pg := set_bit sl (tls_slots (process w) ! pg)]\<rparr>\<rparr>)"
  using assms
  by (simp add: MarkNextAvailableTLSSlotAsUsed_def Let_def split: prod.splits)

lemma Mark_all_full:
  assumes "\<forall>pg \<in> set (tls_slots (process w)). pg = - 1"
  shows "fst (MarkNextAvailableTLSSlotAsUsed E thread w)
           = vm_GetTLSIORegionBaseAddress E (vm_manager (process w))
               + of_nat (length (tls_slots (process w))) * PAGE_SIZE E
               + of_nat 0 * TLS_ENTRY_SIZE E"
    and "tls_slots (process (snd (MarkNextAvailableTLSSlotAsUsed E thread w)))
           = tls_slots (process w) @ [set_bit 0 0]"
proof -
  have f: "FindFreeThreadLocalSlot (tls_slots (process w)) = (0, 0, True)"
    using assms by (simp add: FindFreeThreadLocalSlot_def FindFree_from_full)
  show "fst (MarkNextAvailableTLSSlotAsUsed E thread w)
           = vm_GetTLSIORegionBaseAddress E (vm_manager (process w))
               + of_nat (length (tls_slots (process w))) * PAGE_SIZE E
               + of_nat 0 * TLS_ENTRY_SIZE E"
    by (rule Mark_full(1) [OF f])
  show "tls_slots (process (snd (MarkNextAvailableTLSSlotAsUsed E thread w)))
           = tls_slots (process w) @ [set_bit 0 0]"
    by (rule Mark_full(2) [OF f])
qed

lemma Mark_lowest_free:
  assumes "\<not> (\<forall>pg \<in> set (tls_slots (process w)). pg = - 1)"
  shows "\<exists>page slot. page < length (tls_slots (process w)) \<and> slot < 8
      \<and> \<not> bit (tls_slots (process w) ! page) slot
      \<and> (\<forall>page' < page. tls_slots (process w) ! page' = - 1)
      \<and> (\<forall>slot' < slot. bit (tls_slots (process w) ! page) slot')
      \<and> MarkNextAvailableTLSSlotAsUsed E thread w
           = (vm_GetTLSIORegionBaseAddress E (vm_manager (process w))
               + of_nat page * PAGE_SIZE E + of_nat slot * TLS_ENTRY_SIZE E,
              w\<lparr>process := (process w)
                 \<lparr>tls_slots := (tls_slots (process w))
                    [page := set_bit slot (tls_slots (process w) ! page)]\<rparr>\<rparr>)"
proof -
  from FindFree_from_found [OF assms, of 0] obtain k slot where
    k: "k < length (tls_slots (process w))" "slot < 8"
      "\<not> bit (tls_slots (process w) ! k) slot"
      "\<forall>k' < k. tls_slots (process w) ! k' = - 1"
      "\<forall>slot' < slot. bit (tls_slots (process w) ! k) slot'"
      "FindFreeThreadLocalSlot (tls_slots (process w)) = (k, slot, False)"
    unfolding FindFreeThreadLocalSlot_def by auto
  show ?thesis
    using k(1-5) Mark_found [OF k(6), of E thread] by blast
qed




lemma tls_offset_unat:
  fixes P T :: u64
  assumes "0 < unat T" "8 * unat T \<le> unat P" "(n + 1) * unat P \<le> 2 ^ 64" "s < 8"
  shows "unat (of_nat n * P + of_nat s * T) = n * unat P + s * unat T"
proof -
  have "s * unat T < 8 * unat T"
    using assms(1) assms(4) by (intro mult_strict_right_mono) simp_all
  then have "s * unat T < unat P"
    using assms(2) by linarith
  then have "n * unat P + s * unat T < (n + 1) * unat P"
    by simp
  then have lt: "n * unat P + s * unat T < 2 ^ 64"
    using assms(3) by linarith
  have "of_nat n * P + of_nat s * T = (of_nat (n * unat P + s * unat T) :: u64)"
    by simp
  then show ?thesis
    using lt by (simp only: unat_of_nat) simp
qed

lemma tls_address_inverse:
  fixes P T :: u64
  assumes "0 < unat T" "8 * unat T \<le> unat P" "(n + 1) * unat P \<le> 2 ^ 64" "s < 8"
  shows "unat ((of_nat n * P + of_nat s * T) div P) = n"
    and "unat (((of_nat n * P + of_nat s * T) mod P) div T) = s"
proof -
  have u: "unat (of_nat n * P + of_nat s * T) = n * unat P + s * unat T"
    by (rule tls_offset_unat [OF assms])
  have "s * unat T < 8 * unat T"
    using assms(1) assms(4) by (intro mult_strict_right_mono) simp_all
  then have small: "s * unat T < unat P" using assms(2) by linarith
  then have pos: "0 < unat P" by simp
  show "unat ((of_nat n * P + of_nat s * T) div P) = n"
    using small pos by (simp add: unat_div u)
  show "unat (((of_nat n * P + of_nat s * T) mod P) div T) = s"
    using small pos assms(1) by (simp add: unat_div unat_mod u)
qed

lemma unset_set_bit:
  fixes x :: u8
  assumes "\<not> bit x n"
  shows "unset_bit n (set_bit n x) = x"
  by (rule bit_eqI) (use assms in \<open>auto simp add: bit_unset_bit_iff bit_set_bit_iff\<close>)

lemma FreeTLSSlot_at:
  assumes "tls_address - vm_GetTLSIORegionBaseAddress E (vm_manager (process w)) = off"
    and "unat (off div PAGE_SIZE E) = page"
    and "unat ((off mod PAGE_SIZE E) div TLS_ENTRY_SIZE E) = slot"
    and "page < length (tls_slots (process w))" "slot < 8"
  shows "FreeTLSSlot E tls_address w
           = Inr (w\<lparr>process := (process w)
                   \<lparr>tls_slots := (tls_slots (process w))
                      [page := unset_bit slot (tls_slots (process w) ! page)]\<rparr>\<rparr>)"
  using assms by (simp add: FreeTLSSlot_def Let_def)

lemma free_after_allocate:
  assumes sizes: "0 < unat (TLS_ENTRY_SIZE E)" "8 * unat (TLS_ENTRY_SIZE E) \<le> unat (PAGE_SIZE E)"
    and room: "(length (tls_slots (process w)) + 1) * unat (PAGE_SIZE E) \<le> 2 ^ 64"
    and base: "vm_GetTLSIORegionBaseAddress E
                 (vm_manager (process (snd (MarkNextAvailableTLSSlotAsUsed E thread w))))
               = vm_GetTLSIORegionBaseAddress E (vm_manager (process w))"
    and chosen: "fst (MarkNextAvailableTLSSlotAsUsed E thread w)
                   = vm_GetTLSIORegionBaseAddress E (vm_manager (process w))
                       + of_nat page * PAGE_SIZE E + of_nat slot * TLS_ENTRY_SIZE E"
      "page \<le> length (tls_slots (process w))" "slot < 8"
      "page < length (tls_slots (process (snd (MarkNextAvailableTLSSlotAsUsed E thread w))))"
  shows "unat ((fst (MarkNextAvailableTLSSlotAsUsed E thread w)
                  - vm_GetTLSIORegionBaseAddress E (vm_manager (process w))) div PAGE_SIZE E)
           = page"
    and "unat (((fst (MarkNextAvailableTLSSlotAsUsed E thread w)
                  - vm_GetTLSIORegionBaseAddress E (vm_manager (process w))) mod PAGE_SIZE E)
                div TLS_ENTRY_SIZE E) = slot"
    and "FreeTLSSlot E (fst (MarkNextAvailableTLSSlotAsUsed E thread w))
            (snd (MarkNextAvailableTLSSlotAsUsed E thread w))
           = Inr ((snd (MarkNextAvailableTLSSlotAsUsed E thread w))
                   \<lparr>process := (process (snd (MarkNextAvailableTLSSlotAsUsed E thread w)))
                     \<lparr>tls_slots :=
                        (tls_slots (process (snd (MarkNextAvailableTLSSlotAsUsed E thread w))))
                        [page := unset_bit slot
                           (tls_slots (process (snd (MarkNextAvailableTLSSlotAsUsed E thread w)))
                              ! page)]\<rparr>\<rparr>)"
proof -
  let ?a = "fst (MarkNextAvailableTLSSlotAsUsed E thread w)"
  let ?w1 = "snd (MarkNextAvailableTLSSlotAsUsed E thread w)"
  let ?b = "vm_GetTLSIORegionBaseAddress E (vm_manager (process w))"
  let ?off = "of_nat page * PAGE_SIZE E + of_nat slot * TLS_ENTRY_SIZE E"
  have off: "?a - ?b = ?off"
    by (simp add: chosen(1))
  have "(page + 1) * unat (PAGE_SIZE E) \<le> (length (tls_slots (process w)) + 1) * unat (PAGE_SIZE E)"
    using chosen(2) by (intro mult_le_mono1) simp
  then have room': "(page + 1) * unat (PAGE_SIZE E) \<le> 2 ^ 64"
    using room by linarith
  note inv = tls_address_inverse [OF sizes room' chosen(3)]
  show p: "unat ((?a - ?b) div PAGE_SIZE E) = page"
    by (simp only: off inv(1))
  show s: "unat (((?a - ?b) mod PAGE_SIZE E) div TLS_ENTRY_SIZE E) = slot"
    by (simp only: off inv(2))
  have off1: "?a - vm_GetTLSIORegionBaseAddress E (vm_manager (process ?w1)) = ?off"
    by (simp only: base off)
  show "FreeTLSSlot E ?a ?w1
          = Inr (?w1\<lparr>process := (process ?w1)
                   \<lparr>tls_slots := (tls_slots (process ?w1))
                      [page := unset_bit slot (tls_slots (process ?w1) ! page)]\<rparr>\<rparr>)"
    by (rule FreeTLSSlot_at [OF off1 inv(1) inv(2) chosen(4) chosen(3)])
qed



text \<open>
  C8. Let eight TLS entries fit in a page, let the pages the process has (and one more)
  fit in the 64-bit address arithmetic, and let the TLS region base be the same after the
  allocation as before it. Then the address \<open>MarkNextAvailableTLSSlotAsUsed\<close> returns,
  less the base, divided by \<open>PAGE_SIZE\<close> is the page it chose, and the remainder divided
  by \<open>TLS_ENTRY_SIZE\<close> is the slot; \<open>FreeTLSSlot\<close> on that address succeeds and clears
  that bit only; the bitmaps are then those before the allocation, followed by the new
  page, all free, when one was appended; no page is removed.
\<close>

theorem tls_free_after_allocate:
  assumes sizes: "0 < unat (TLS_ENTRY_SIZE E)"
      "8 * unat (TLS_ENTRY_SIZE E) \<le> unat (PAGE_SIZE E)"
    and room: "(length (tls_slots (process w)) + 1) * unat (PAGE_SIZE E) \<le> 2 ^ 64"
    and base: "vm_GetTLSIORegionBaseAddress E
                 (vm_manager (process (snd (MarkNextAvailableTLSSlotAsUsed E thread w))))
               = vm_GetTLSIORegionBaseAddress E (vm_manager (process w))"
  shows "\<exists>page slot.
      (if \<forall>pg \<in> set (tls_slots (process w)). pg = - 1
       then page = length (tls_slots (process w)) \<and> slot = 0
       else page < length (tls_slots (process w)) \<and> slot < 8
            \<and> \<not> bit (tls_slots (process w) ! page) slot
            \<and> (\<forall>page' < page. tls_slots (process w) ! page' = - 1)
            \<and> (\<forall>slot' < slot. bit (tls_slots (process w) ! page) slot'))
      \<and> fst (MarkNextAvailableTLSSlotAsUsed E thread w)
          = vm_GetTLSIORegionBaseAddress E (vm_manager (process w))
              + of_nat page * PAGE_SIZE E + of_nat slot * TLS_ENTRY_SIZE E
      \<and> unat ((fst (MarkNextAvailableTLSSlotAsUsed E thread w)
                  - vm_GetTLSIORegionBaseAddress E (vm_manager (process w))) div PAGE_SIZE E)
          = page
      \<and> unat (((fst (MarkNextAvailableTLSSlotAsUsed E thread w)
                  - vm_GetTLSIORegionBaseAddress E (vm_manager (process w))) mod PAGE_SIZE E)
                div TLS_ENTRY_SIZE E) = slot
      \<and> (\<exists>w2. FreeTLSSlot E (fst (MarkNextAvailableTLSSlotAsUsed E thread w))
                 (snd (MarkNextAvailableTLSSlotAsUsed E thread w)) = Inr w2
            \<and> w2 = (snd (MarkNextAvailableTLSSlotAsUsed E thread w))
                   \<lparr>process := (process (snd (MarkNextAvailableTLSSlotAsUsed E thread w)))
                     \<lparr>tls_slots :=
                        (tls_slots (process (snd (MarkNextAvailableTLSSlotAsUsed E thread w))))
                        [page := unset_bit slot
                           (tls_slots (process (snd (MarkNextAvailableTLSSlotAsUsed E thread w)))
                              ! page)]\<rparr>\<rparr>
            \<and> tls_slots (process w2)
                = (if \<forall>pg \<in> set (tls_slots (process w)). pg = - 1
                   then tls_slots (process w) @ [0] else tls_slots (process w))
            \<and> length (tls_slots (process w2))
                = length (tls_slots (process (snd (MarkNextAvailableTLSSlotAsUsed E thread w)))))"
proof (cases "\<forall>pg \<in> set (tls_slots (process w)). pg = - 1")
  case True
  let ?n = "length (tls_slots (process w))"
  let ?w1 = "snd (MarkNextAvailableTLSSlotAsUsed E thread w)"
  note m = Mark_all_full [OF True, of E thread]
  have l: "?n < length (tls_slots (process ?w1))"
    by (simp add: m(2))
  note f = free_after_allocate [OF sizes room base m(1) order_refl _ l]
  have z: "unset_bit 0 (1 :: u8) = 0"
    using unset_set_bit [of "0 :: u8" 0] by simp
  have after: "(tls_slots (process ?w1))[?n := unset_bit 0 (tls_slots (process ?w1) ! ?n)]
                 = tls_slots (process w) @ [0]"
    by (simp add: m(2) z)
  show ?thesis
    apply (rule exI [of _ ?n], rule exI [of _ 0])
    apply (simp only: if_P [OF True] simp_thms)
    apply (intro conjI)
       apply (rule m(1))
      apply (rule f(1), simp)
     apply (rule f(2), simp)
    apply (simp only: f(3) sum.inject simp_thms ex_simps)
    apply (intro conjI)
     apply (simp add: after)
    apply simp
    done
next
  case False
  let ?w1 = "snd (MarkNextAvailableTLSSlotAsUsed E thread w)"
  from Mark_lowest_free [OF False, of E thread] obtain page slot where
    m: "page < length (tls_slots (process w))" "slot < 8"
      "\<not> bit (tls_slots (process w) ! page) slot"
      "\<forall>page' < page. tls_slots (process w) ! page' = - 1"
      "\<forall>slot' < slot. bit (tls_slots (process w) ! page) slot'"
      "MarkNextAvailableTLSSlotAsUsed E thread w
         = (vm_GetTLSIORegionBaseAddress E (vm_manager (process w))
             + of_nat page * PAGE_SIZE E + of_nat slot * TLS_ENTRY_SIZE E,
            w\<lparr>process := (process w)
               \<lparr>tls_slots := (tls_slots (process w))
                  [page := set_bit slot (tls_slots (process w) ! page)]\<rparr>\<rparr>)"
    by blast
  have s: "tls_slots (process ?w1)
              = (tls_slots (process w))[page := set_bit slot (tls_slots (process w) ! page)]"
    by (simp add: m(6))
  have a: "fst (MarkNextAvailableTLSSlotAsUsed E thread w)
        = vm_GetTLSIORegionBaseAddress E (vm_manager (process w))
            + of_nat page * PAGE_SIZE E + of_nat slot * TLS_ENTRY_SIZE E"
    by (simp add: m(6))
  have l: "page < length (tls_slots (process ?w1))"
    using m(1) by (simp add: s)
  have le: "page \<le> length (tls_slots (process w))"
    using m(1) by simp
  note f = free_after_allocate [OF sizes room base a le m(2) l]
  have after: "(tls_slots (process ?w1))[page := unset_bit slot (tls_slots (process ?w1) ! page)]
                 = tls_slots (process w)"
    using m(1) by (simp add: s unset_set_bit [OF m(3)])
  show ?thesis
    apply (rule exI [of _ page], rule exI [of _ slot])
    apply (simp only: if_not_P [OF False] simp_thms)
    apply (intro conjI)
            apply (rule m(1))
           apply (rule m(2))
          apply (rule m(3))
         apply (rule m(4))
        apply (rule m(5))
       apply (rule a)
      apply (rule f(1))
     apply (rule f(2))
    apply (simp only: f(3) sum.inject simp_thms ex_simps)
    apply (intro conjI)
     apply (simp add: after)
    apply simp
    done
qed

theorem tls_free_after_allocate_witness:
  "(\<exists>w2. FreeTLSSlot ref_Env (fst (MarkNextAvailableTLSSlotAsUsed ref_Env 0 example_world))
            (snd (MarkNextAvailableTLSSlotAsUsed ref_Env 0 example_world)) = Inr w2
       \<and> tls_slots (process w2) = [0])
   \<and> (\<exists>w2. FreeTLSSlot ref_Env
            (fst (MarkNextAvailableTLSSlotAsUsed ref_Env 0
                   (example_world\<lparr>process := example_process\<lparr>tls_slots := [0xFF, 0x03]\<rparr>\<rparr>)))
            (snd (MarkNextAvailableTLSSlotAsUsed ref_Env 0
                   (example_world\<lparr>process := example_process\<lparr>tls_slots := [0xFF, 0x03]\<rparr>\<rparr>)))
           = Inr w2
       \<and> tls_slots (process w2) = [0xFF, 0x03])"
proof -
  let ?w = "example_world\<lparr>process := example_process\<lparr>tls_slots := [0xFF, 0x03]\<rparr>\<rparr>"
  have sizes: "0 < unat (TLS_ENTRY_SIZE ref_Env)"
    "8 * unat (TLS_ENTRY_SIZE ref_Env) \<le> unat (PAGE_SIZE ref_Env)"
    by (simp_all add: ref_Env_def)
  have room: "(length (tls_slots (process example_world)) + 1) * unat (PAGE_SIZE ref_Env) \<le> 2 ^ 64"
    "(length (tls_slots (process ?w)) + 1) * unat (PAGE_SIZE ref_Env) \<le> 2 ^ 64"
    by (simp_all add: ref_Env_def example_world_def example_process_def)
  have base: "vm_GetTLSIORegionBaseAddress ref_Env
                 (vm_manager (process (snd (MarkNextAvailableTLSSlotAsUsed ref_Env 0 w))))
               = vm_GetTLSIORegionBaseAddress ref_Env (vm_manager (process w))" for w
    by (simp add: ref_Env_def)
  have e: "tls_slots (process example_world) = []"
    by (simp add: example_world_def example_process_def)
  have a: "\<exists>w2. FreeTLSSlot ref_Env (fst (MarkNextAvailableTLSSlotAsUsed ref_Env 0 example_world))
            (snd (MarkNextAvailableTLSSlotAsUsed ref_Env 0 example_world)) = Inr w2
       \<and> tls_slots (process w2) = [0]"
    using tls_free_after_allocate [OF sizes room(1) base]
    by (auto simp add: e)
  have b: "\<exists>w2. FreeTLSSlot ref_Env (fst (MarkNextAvailableTLSSlotAsUsed ref_Env 0 ?w))
            (snd (MarkNextAvailableTLSSlotAsUsed ref_Env 0 ?w)) = Inr w2
       \<and> tls_slots (process w2) = [0xFF, 0x03]"
    using tls_free_after_allocate [OF sizes room(2) base]
    by auto
  from a b show ?thesis by blast
qed

section \<open>Termination\<close>

lemma ChangeStatus_frame:
  "current_thread (ChangeStatus E s w) = current_thread w"
  "scheduler_thread_list (ChangeStatus E s w) = scheduler_thread_list w"
  "process_id (process (ChangeStatus E s w)) = process_id (process w)"
  "status (process (ChangeStatus E s w)) = s"
  by (simp_all add: ChangeStatus_def Let_def)

lemma ChangeStatus_threads:
  "threads (ChangeStatus E s w)
     = (if status (process w) = s then threads w
        else wait_object_WakeupAllWaitingThreads E (process_id (process w)) (threads w))"
  by (simp add: ChangeStatus_def Let_def)

lemma stop_threads_append:
  "stop_threads E (xs @ ys) w = and_then (stop_threads E xs w) (stop_threads E ys)"
proof (induction xs arbitrary: w)
  case Nil
  then show ?case by (simp add: and_then_def)
next
  case (Cons x xs)
  then show ?case by (simp add: and_then_def)
qed

lemma stop_threads_lists:
  "stop_threads E ts w = Inr w' \<Longrightarrow> scheduler_thread_list w' = scheduler_thread_list w"
proof (induction ts arbitrary: w)
  case Nil
  then show ?case by simp
next
  case (Cons t ts)
  then show ?case
    by (fastforce simp: log_call_def split: if_splits)
qed

lemma PrepareForTermination_unfold:
  "PrepareForTermination E w =
     and_then (stop_threads E (scheduler_thread_list w 0 @ scheduler_thread_list w 1
                              @ scheduler_thread_list w 2 @ scheduler_thread_list w 3)
                 (ChangeStatus E Exiting w))
       (\<lambda>w. Inr (ChangeStatus E Exited w))"
proof -
  let ?w0 = "ChangeStatus E Exiting w"
  have l: "scheduler_thread_list ?w0 = scheduler_thread_list w"
    by (rule ChangeStatus_frame)
  show ?thesis
  proof (cases "stop_threads E (scheduler_thread_list w 0) ?w0")
    case (Inl e)
    then show ?thesis
      by (simp add: PrepareForTermination_def stop_threads_append and_then_def l)
  next
    case w1: (Inr w1)
    note l1 = stop_threads_lists [OF w1]
    show ?thesis
    proof (cases "stop_threads E (scheduler_thread_list w 1) w1")
      case (Inl e)
      then show ?thesis
        using w1 by (simp add: PrepareForTermination_def stop_threads_append and_then_def l l1)
    next
      case w2: (Inr w2)
      note l2 = stop_threads_lists [OF w2]
      show ?thesis
      proof (cases "stop_threads E (scheduler_thread_list w 2) w2")
        case (Inl e)
        then show ?thesis
          using w1 w2
          by (simp add: PrepareForTermination_def stop_threads_append and_then_def l l1 l2)
      next
        case w3: (Inr w3)
        note l3 = stop_threads_lists [OF w3]
        show ?thesis
          using w1 w2 w3
          by (simp add: PrepareForTermination_def stop_threads_append and_then_def l l1 l2 l3)
      qed
    qed
  qed
qed

text \<open>
  One core's list, when \<open>Stop\<close> never changes the owner of a thread: which threads are
  concerned is settled at the start, and the status of a concerned thread is read from
  the thread objects as the stops of the concerned threads before it have left them.
\<close>

lemma stop_threads_spec:
  assumes H: "\<forall>t ths u. owner_process (thread_Stop E t ths u) = owner_process (ths u)"
  shows "stop_threads E ts w =
     (if \<forall>k<length ts.
           (owner_process (threads w (ts ! k)) = process_id (process w)
              \<and> ts ! k \<noteq> current_thread w)
           \<longrightarrow> thread_status
                 (fold (thread_Stop E)
                    (filter (\<lambda>t. owner_process (threads w t) = process_id (process w)
                                  \<and> t \<noteq> current_thread w) (take k ts))
                    (threads w) (ts ! k)) = WaitSynchAny
               \<or> thread_status
                 (fold (thread_Stop E)
                    (filter (\<lambda>t. owner_process (threads w t) = process_id (process w)
                                  \<and> t \<noteq> current_thread w) (take k ts))
                    (threads w) (ts ! k)) = WaitSynchAll
      then Inr (w\<lparr>threads :=
                    fold (thread_Stop E)
                      (filter (\<lambda>t. owner_process (threads w t) = process_id (process w)
                                    \<and> t \<noteq> current_thread w) ts)
                      (threads w),
                  calls := calls w
                    @ map Thread_Stop
                        (filter (\<lambda>t. owner_process (threads w t) = process_id (process w)
                                      \<and> t \<noteq> current_thread w) ts)\<rparr>)
      else Inl (AssertFailed
                  ''Exiting processes with non-waiting threads is currently unimplemented''))"
proof (induction ts arbitrary: w)
  case Nil
  then show ?case by simp
next
  case (Cons t ts)
  show ?case
  proof (cases "owner_process (threads w t) = process_id (process w) \<and> t \<noteq> current_thread w")
    case False
    then show ?thesis
      unfolding stop_threads.simps Cons.IH [of w]
      by (auto simp add: All_less_Suc2)
  next
    case True
    show ?thesis
    proof (cases "thread_status (threads w t) = WaitSynchAny
                  \<or> thread_status (threads w t) = WaitSynchAll")
      case False
      then show ?thesis using True by auto
    next
      case wt: True
      let ?w' = "log_call (Thread_Stop t) (w\<lparr>threads := thread_Stop E t (threads w)\<rparr>)"
      have own: "\<And>u. owner_process (thread_Stop E t (threads w) u)
                        = owner_process (threads w u)"
        using H by simp
      have p: "process ?w' = process w" "current_thread ?w' = current_thread w"
        "threads ?w' = thread_Stop E t (threads w)" "calls ?w' = calls w @ [Thread_Stop t]"
        by (simp_all add: log_call_def)
      have "stop_threads E (t # ts) w = stop_threads E ts ?w'"
        using True wt by auto
      also have "\<dots> =
     (if \<forall>k<length ts.
           (owner_process (threads w (ts ! k)) = process_id (process w)
              \<and> ts ! k \<noteq> current_thread w)
           \<longrightarrow> thread_status
                 (fold (thread_Stop E)
                    (filter (\<lambda>t. owner_process (threads w t) = process_id (process w)
                                  \<and> t \<noteq> current_thread w) (take k ts))
                    (thread_Stop E t (threads w)) (ts ! k)) = WaitSynchAny
               \<or> thread_status
                 (fold (thread_Stop E)
                    (filter (\<lambda>t. owner_process (threads w t) = process_id (process w)
                                  \<and> t \<noteq> current_thread w) (take k ts))
                    (thread_Stop E t (threads w)) (ts ! k)) = WaitSynchAll
      then Inr (?w'\<lparr>threads :=
                    fold (thread_Stop E)
                      (filter (\<lambda>t. owner_process (threads w t) = process_id (process w)
                                    \<and> t \<noteq> current_thread w) ts)
                      (thread_Stop E t (threads w)),
                  calls := (calls w @ [Thread_Stop t])
                    @ map Thread_Stop
                        (filter (\<lambda>t. owner_process (threads w t) = process_id (process w)
                                      \<and> t \<noteq> current_thread w) ts)\<rparr>)
      else Inl (AssertFailed
                  ''Exiting processes with non-waiting threads is currently unimplemented''))"
        unfolding Cons.IH [of ?w'] p own ..
      finally have eq: "stop_threads E (t # ts) w = \<dots>" .
      show ?thesis
        unfolding eq using True wt by (auto simp add: All_less_Suc2 log_call_def)
    qed
  qed
qed

text \<open>
  C9. \<open>PrepareForTermination\<close> goes through the thread lists of cores 0 to 3. Call a
  thread on them concerned when this process owns it and it is not the calling thread;
  \<open>Stop\<close> and the wake-up are taken never to change the owner of a thread. The status
  of a concerned thread is read when the loop reaches it: from the thread objects as the
  wake-up of the change to \<open>Exiting\<close> (none if the process was already exiting) and the
  stops of the concerned threads before it have left them. If that status is neither
  \<open>WaitSynchAny\<close> nor \<open>WaitSynchAll\<close> for some concerned thread, the call ends in
  the failed assertion. Otherwise it returns; the calls it has made are the wake-up of
  the change to \<open>Exiting\<close>, one \<open>Stop\<close> for each concerned thread, in list order, and
  for no other thread, and the wake-up of the change to \<open>Exited\<close>; the thread objects
  are what these calls make of them, the lists are as before, and the status is
  \<open>Exited\<close>.
\<close>

theorem PrepareForTermination_spec:
  assumes "\<forall>t ths u. owner_process (thread_Stop E t ths u) = owner_process (ths u)"
    and "\<forall>p ths u. owner_process (wait_object_WakeupAllWaitingThreads E p ths u)
                      = owner_process (ths u)"
  shows "PrepareForTermination E w =
     (let every = scheduler_thread_list w 0 @ scheduler_thread_list w 1
                    @ scheduler_thread_list w 2 @ scheduler_thread_list w 3;
          own = (\<lambda>t. owner_process (threads w t) = process_id (process w)
                      \<and> t \<noteq> current_thread w);
          wake = wait_object_WakeupAllWaitingThreads E (process_id (process w));
          woken = (if status (process w) = Exiting then threads w else wake (threads w));
          reached = (\<lambda>k. fold (thread_Stop E) (filter own (take k every)) woken)
      in if \<forall>k<length every.
              own (every ! k) \<longrightarrow> thread_status (reached k (every ! k)) = WaitSynchAny
                                \<or> thread_status (reached k (every ! k)) = WaitSynchAll
         then Inr (w\<lparr>process := (process w)\<lparr>status := Exited, is_signaled := True\<rparr>,
                     threads := wake (reached (length every)),
                     calls := calls w
                       @ (if status (process w) = Exiting then [] else [WakeupAllWaitingThreads])
                       @ map Thread_Stop (filter own every)
                       @ [WakeupAllWaitingThreads]\<rparr>)
         else Inl (AssertFailed
                     ''Exiting processes with non-waiting threads is currently unimplemented''))"
proof -
  let ?every = "scheduler_thread_list w 0 @ scheduler_thread_list w 1
                  @ scheduler_thread_list w 2 @ scheduler_thread_list w 3"
  let ?own = "\<lambda>t. owner_process (threads w t) = process_id (process w)
                    \<and> t \<noteq> current_thread w"
  let ?wake = "wait_object_WakeupAllWaitingThreads E (process_id (process w))"
  let ?woken = "if status (process w) = Exiting then threads w else ?wake (threads w)"
  let ?reached = "\<lambda>k. fold (thread_Stop E) (filter ?own (take k ?every)) ?woken"
  let ?ok = "\<forall>k<length ?every.
               ?own (?every ! k) \<longrightarrow> thread_status (?reached k (?every ! k)) = WaitSynchAny
                                   \<or> thread_status (?reached k (?every ! k)) = WaitSynchAll"
  let ?w0 = "ChangeStatus E Exiting w"
  have th: "threads ?w0 = ?woken"
    by (rule ChangeStatus_threads)
  have own: "\<And>u. owner_process (?woken u) = owner_process (threads w u)"
    using assms(2) by simp
  have stop: "stop_threads E ?every ?w0 =
     (if ?ok
      then Inr (?w0\<lparr>threads := fold (thread_Stop E) (filter ?own ?every) ?woken,
                    calls := calls ?w0 @ map Thread_Stop (filter ?own ?every)\<rparr>)
      else Inl (AssertFailed
                  ''Exiting processes with non-waiting threads is currently unimplemented''))"
    unfolding stop_threads_spec [OF assms(1), of ?every ?w0] ChangeStatus_frame th own ..
  show ?thesis
  proof (cases ?ok)
    case False
    then show ?thesis
      unfolding PrepareForTermination_unfold stop Let_def
      by (simp only: if_False and_then_def sum.case)
  next
    case True
    have "PrepareForTermination E w
        = Inr (ChangeStatus E Exited
                 (?w0\<lparr>threads := fold (thread_Stop E) (filter ?own ?every) ?woken,
                      calls := calls ?w0 @ map Thread_Stop (filter ?own ?every)\<rparr>))"
      unfolding PrepareForTermination_unfold stop
      by (simp only: if_P [OF True] and_then_def sum.case)
    also have "ChangeStatus E Exited
                 (?w0\<lparr>threads := fold (thread_Stop E) (filter ?own ?every) ?woken,
                      calls := calls ?w0 @ map Thread_Stop (filter ?own ?every)\<rparr>)
        = w\<lparr>process := (process w)\<lparr>status := Exited, is_signaled := True\<rparr>,
            threads := ?wake (?reached (length ?every)),
            calls := calls w
              @ (if status (process w) = Exiting then [] else [WakeupAllWaitingThreads])
              @ map Thread_Stop (filter ?own ?every)
              @ [WakeupAllWaitingThreads]\<rparr>"
      by (simp add: ChangeStatus_def Let_def)
    finally show ?thesis
      unfolding Let_def by (simp only: if_P [OF True])
  qed
qed

theorem PrepareForTermination_spec_witness:
  "PrepareForTermination ref_Env example_world
     = Inr (example_world
          \<lparr>process := example_process\<lparr>status := Exited, is_signaled := True\<rparr>,
           threads := ref_stop 2 (ref_stop 1 example_threads),
           calls := [WakeupAllWaitingThreads, Thread_Stop 1, Thread_Stop 2,
                     WakeupAllWaitingThreads]\<rparr>)
   \<and> PrepareForTermination ref_Env (example_world\<lparr>current_thread := 1\<rparr>)
     = Inl (AssertFailed
              ''Exiting processes with non-waiting threads is currently unimplemented'')"
proof -
  have h1: "\<forall>t ths u. owner_process (thread_Stop ref_Env t ths u) = owner_process (ths u)"
    by (simp add: ref_Env_def ref_stop_def)
  have h2: "\<forall>p ths u. owner_process (wait_object_WakeupAllWaitingThreads ref_Env p ths u)
                        = owner_process (ths u)"
    by (simp add: ref_Env_def ref_wakeup_def)
  have E: "thread_Stop ref_Env = ref_stop"
    "wait_object_WakeupAllWaitingThreads ref_Env = ref_wakeup"
    by (simp_all add: ref_Env_def)
  have a: "ref_wakeup 1 example_threads = example_threads"
    by (rule ext) (simp add: ref_wakeup_def example_threads_def)
  have b: "ref_wakeup 1 (ref_stop 2 (ref_stop 1 example_threads))
             = ref_stop 2 (ref_stop 1 example_threads)"
    by (rule ext) (simp add: ref_wakeup_def ref_stop_def example_threads_def)
  have s: "thread_status (example_threads 0) = ThreadStatus_Running"
    "thread_status (example_threads 1) = WaitSynchAny"
    "thread_status (ref_stop 1 example_threads 2) = WaitSynchAll"
    "owner_process (example_threads 0) = 1" "owner_process (example_threads 1) = 1"
    "owner_process (example_threads 2) = 1" "owner_process (example_threads 3) = 2"
    by (simp_all add: ref_stop_def example_threads_def)
  show ?thesis
    using PrepareForTermination_spec [OF h1 h2, of example_world]
      PrepareForTermination_spec [OF h1 h2, of "example_world\<lparr>current_thread := 1\<rparr>"]
    by (simp add: example_world_def example_process_def Let_def All_less_Suc E a
        b [unfolded One_nat_def] s s [unfolded One_nat_def])
qed

text \<open>
  In \<open>self_waiting_world\<close> the threads on the lists that the process owns, the caller
  apart, are 1 and 2, and both are in a blocking wait when \<open>PrepareForTermination\<close> is
  called. The wake-up of the change to \<open>Exiting\<close> makes thread 1 ready, and the
  assertion fails when the loop reaches it.
\<close>

theorem termination_asserts_on_woken_thread:
  "scheduler_thread_list self_waiting_world 0 = [0, 1]
   \<and> scheduler_thread_list self_waiting_world 1 = [3, 2]
   \<and> scheduler_thread_list self_waiting_world 2 = []
   \<and> scheduler_thread_list self_waiting_world 3 = []
   \<and> current_thread self_waiting_world = 0
   \<and> owner_process (threads self_waiting_world 3) \<noteq> process_id (process self_waiting_world)
   \<and> owner_process (threads self_waiting_world 1) = process_id (process self_waiting_world)
   \<and> owner_process (threads self_waiting_world 2) = process_id (process self_waiting_world)
   \<and> thread_status (threads self_waiting_world 1) = WaitSynchAny
   \<and> thread_status (threads self_waiting_world 2) = WaitSynchAll
   \<and> PrepareForTermination ref_Env self_waiting_world
       = Inl (AssertFailed
                ''Exiting processes with non-waiting threads is currently unimplemented'')"
  by (simp add: self_waiting_world_def example_world_def example_process_def
      example_threads_def PrepareForTermination_def ChangeStatus_def and_then_def Let_def
      ref_Env_def ref_wakeup_def ref_stop_def log_call_def)

section \<open>Module loading\<close>

lemma MapSegment_ok:
  assumes "vm_MapMemoryBlock E (seg_addr segment + base_addr) (memory codeset)
             (seg_offset segment) (ucast (seg_size segment)) memory_state
             (vm_manager (process w)) = (Inr vma, vm)"
  shows "MapSegment E codeset base_addr segment permissions memory_state w
           = Inr (w\<lparr>process := (process w)
                    \<lparr>vm_manager := vm_Reprotect E vma permissions vm\<rparr>\<rparr>)"
  using assms by (simp add: MapSegment_def)

lemma MapSegment_refused:
  assumes "vm_MapMemoryBlock E (seg_addr segment + base_addr) (memory codeset)
             (seg_offset segment) (ucast (seg_size segment)) memory_state
             (vm_manager (process w)) = (Inl c, vm)"
  shows "MapSegment E codeset base_addr segment permissions memory_state w
           = Inl (UnwrapFailed c)"
  using assms by (simp add: MapSegment_def)

lemma LoadModule_ok:
  assumes code: "vm_MapMemoryBlock E (seg_addr (CodeSegment codeset) + base_addr)
             (memory codeset) (seg_offset (CodeSegment codeset))
             (ucast (seg_size (CodeSegment codeset))) CodeStatic
             (vm_manager (process w)) = (Inr code_vma, vm1)"
    and rodata: "vm_MapMemoryBlock E (seg_addr (RODataSegment codeset) + base_addr)
             (memory codeset) (seg_offset (RODataSegment codeset))
             (ucast (seg_size (RODataSegment codeset))) CodeMutable
             (vm_Reprotect E code_vma ReadExecute vm1) = (Inr rodata_vma, vm2)"
    and data: "vm_MapMemoryBlock E (seg_addr (DataSegment codeset) + base_addr)
             (memory codeset) (seg_offset (DataSegment codeset))
             (ucast (seg_size (DataSegment codeset))) CodeMutable
             (vm_Reprotect E rodata_vma Read vm2) = (Inr data_vma, vm3)"
  shows "LoadModule E codeset base_addr w
           = Inr (w\<lparr>process := (process w)
                     \<lparr>vm_manager := vm_Reprotect E data_vma ReadWrite vm3\<rparr>,
                   calls := calls w
                     @ [ClearInstructionCache 0, ClearInstructionCache 1,
                        ClearInstructionCache 2, ClearInstructionCache 3]\<rparr>)"
proof -
  let ?w1 = "w\<lparr>process := (process w)
                \<lparr>vm_manager := vm_Reprotect E code_vma ReadExecute vm1\<rparr>\<rparr>"
  let ?w2 = "w\<lparr>process := (process w)
                \<lparr>vm_manager := vm_Reprotect E rodata_vma Read vm2\<rparr>\<rparr>"
  let ?w3 = "w\<lparr>process := (process w)
                \<lparr>vm_manager := vm_Reprotect E data_vma ReadWrite vm3\<rparr>\<rparr>"
  have 1: "MapSegment E codeset base_addr (CodeSegment codeset) ReadExecute CodeStatic w = Inr ?w1"
    by (rule MapSegment_ok [OF code])
  have 2: "MapSegment E codeset base_addr (RODataSegment codeset) Read CodeMutable ?w1 = Inr ?w2"
    using MapSegment_ok [of E "RODataSegment codeset" base_addr codeset CodeMutable ?w1
        rodata_vma vm2 Read] rodata
    by simp
  have 3: "MapSegment E codeset base_addr (DataSegment codeset) ReadWrite CodeMutable ?w2 = Inr ?w3"
    using MapSegment_ok [of E "DataSegment codeset" base_addr codeset CodeMutable ?w2
        data_vma vm3 ReadWrite] data
    by simp
  show ?thesis
    by (simp add: LoadModule_def and_then_def 1 2 3 log_call_def)
qed

lemma LoadModule_code_refused:
  assumes code: "vm_MapMemoryBlock E (seg_addr (CodeSegment codeset) + base_addr)
             (memory codeset) (seg_offset (CodeSegment codeset))
             (ucast (seg_size (CodeSegment codeset))) CodeStatic
             (vm_manager (process w)) = (Inl c, vm1)"
  shows "LoadModule E codeset base_addr w = Inl (UnwrapFailed c)"
  by (simp add: LoadModule_def and_then_def MapSegment_refused [OF code])

lemma LoadModule_rodata_refused:
  assumes code: "vm_MapMemoryBlock E (seg_addr (CodeSegment codeset) + base_addr)
             (memory codeset) (seg_offset (CodeSegment codeset))
             (ucast (seg_size (CodeSegment codeset))) CodeStatic
             (vm_manager (process w)) = (Inr code_vma, vm1)"
    and rodata: "vm_MapMemoryBlock E (seg_addr (RODataSegment codeset) + base_addr)
             (memory codeset) (seg_offset (RODataSegment codeset))
             (ucast (seg_size (RODataSegment codeset))) CodeMutable
             (vm_Reprotect E code_vma ReadExecute vm1) = (Inl c, vm2)"
  shows "LoadModule E codeset base_addr w = Inl (UnwrapFailed c)"
proof -
  let ?w1 = "w\<lparr>process := (process w)
                \<lparr>vm_manager := vm_Reprotect E code_vma ReadExecute vm1\<rparr>\<rparr>"
  have 1: "MapSegment E codeset base_addr (CodeSegment codeset) ReadExecute CodeStatic w = Inr ?w1"
    by (rule MapSegment_ok [OF code])
  have 2: "MapSegment E codeset base_addr (RODataSegment codeset) Read CodeMutable ?w1
             = Inl (UnwrapFailed c)"
    using MapSegment_refused [of E "RODataSegment codeset" base_addr codeset CodeMutable ?w1
        c vm2 Read] rodata
    by simp
  show ?thesis
    by (simp add: LoadModule_def and_then_def 1 2)
qed

lemma LoadModule_data_refused:
  assumes code: "vm_MapMemoryBlock E (seg_addr (CodeSegment codeset) + base_addr)
             (memory codeset) (seg_offset (CodeSegment codeset))
             (ucast (seg_size (CodeSegment codeset))) CodeStatic
             (vm_manager (process w)) = (Inr code_vma, vm1)"
    and rodata: "vm_MapMemoryBlock E (seg_addr (RODataSegment codeset) + base_addr)
             (memory codeset) (seg_offset (RODataSegment codeset))
             (ucast (seg_size (RODataSegment codeset))) CodeMutable
             (vm_Reprotect E code_vma ReadExecute vm1) = (Inr rodata_vma, vm2)"
    and data: "vm_MapMemoryBlock E (seg_addr (DataSegment codeset) + base_addr)
             (memory codeset) (seg_offset (DataSegment codeset))
             (ucast (seg_size (DataSegment codeset))) CodeMutable
             (vm_Reprotect E rodata_vma Read vm2) = (Inl c, vm3)"
  shows "LoadModule E codeset base_addr w = Inl (UnwrapFailed c)"
proof -
  let ?w1 = "w\<lparr>process := (process w)
                \<lparr>vm_manager := vm_Reprotect E code_vma ReadExecute vm1\<rparr>\<rparr>"
  let ?w2 = "w\<lparr>process := (process w)
                \<lparr>vm_manager := vm_Reprotect E rodata_vma Read vm2\<rparr>\<rparr>"
  have 1: "MapSegment E codeset base_addr (CodeSegment codeset) ReadExecute CodeStatic w = Inr ?w1"
    by (rule MapSegment_ok [OF code])
  have 2: "MapSegment E codeset base_addr (RODataSegment codeset) Read CodeMutable ?w1 = Inr ?w2"
    using MapSegment_ok [of E "RODataSegment codeset" base_addr codeset CodeMutable ?w1
        rodata_vma vm2 Read] rodata
    by simp
  have 3: "MapSegment E codeset base_addr (DataSegment codeset) ReadWrite CodeMutable ?w2
             = Inl (UnwrapFailed c)"
    using MapSegment_refused [of E "DataSegment codeset" base_addr codeset CodeMutable ?w2
        c vm3 ReadWrite] data
    by simp
  show ?thesis
    by (simp add: LoadModule_def and_then_def 1 2 3)
qed

text \<open>
  C1, as the code has it. When the address-space manager accepts the three mappings,
  \<open>LoadModule\<close> maps the code, read-only data and data segments in this order, each at
  its address plus the base address, and reprotects each mapping right after it is made:
  the code segment to \<open>ReadExecute\<close> (readable and executable, not writable), the
  read-only data to \<open>Read\<close>, the data to \<open>ReadWrite\<close>. It then invalidates the
  instruction cache of cores 0, 1, 2 and 3, once each. When the manager refuses a
  mapping, be it the first, the second or the third, the call ends in the failed
  \<open>Unwrap\<close> of the refusal's result code, and nothing is returned.
\<close>

theorem load_module_maps_and_invalidates:
  "(vm_MapMemoryBlock E (seg_addr (CodeSegment codeset) + base_addr)
             (memory codeset) (seg_offset (CodeSegment codeset))
             (ucast (seg_size (CodeSegment codeset))) CodeStatic
             (vm_manager (process w)) = (Inr code_vma, vm1)
    \<longrightarrow> vm_MapMemoryBlock E (seg_addr (RODataSegment codeset) + base_addr)
             (memory codeset) (seg_offset (RODataSegment codeset))
             (ucast (seg_size (RODataSegment codeset))) CodeMutable
             (vm_Reprotect E code_vma ReadExecute vm1) = (Inr rodata_vma, vm2)
    \<longrightarrow> vm_MapMemoryBlock E (seg_addr (DataSegment codeset) + base_addr)
             (memory codeset) (seg_offset (DataSegment codeset))
             (ucast (seg_size (DataSegment codeset))) CodeMutable
             (vm_Reprotect E rodata_vma Read vm2) = (Inr data_vma, vm3)
    \<longrightarrow> LoadModule E codeset base_addr w
           = Inr (w\<lparr>process := (process w)
                     \<lparr>vm_manager := vm_Reprotect E data_vma ReadWrite vm3\<rparr>,
                   calls := calls w
                     @ [ClearInstructionCache 0, ClearInstructionCache 1,
                        ClearInstructionCache 2, ClearInstructionCache 3]\<rparr>))
   \<and> (vm_MapMemoryBlock E (seg_addr (CodeSegment codeset) + base_addr)
             (memory codeset) (seg_offset (CodeSegment codeset))
             (ucast (seg_size (CodeSegment codeset))) CodeStatic
             (vm_manager (process w)) = (Inl c1, vm1')
    \<longrightarrow> LoadModule E codeset base_addr w = Inl (UnwrapFailed c1))
   \<and> (vm_MapMemoryBlock E (seg_addr (CodeSegment codeset) + base_addr)
             (memory codeset) (seg_offset (CodeSegment codeset))
             (ucast (seg_size (CodeSegment codeset))) CodeStatic
             (vm_manager (process w)) = (Inr code_vma, vm1)
    \<longrightarrow> vm_MapMemoryBlock E (seg_addr (RODataSegment codeset) + base_addr)
             (memory codeset) (seg_offset (RODataSegment codeset))
             (ucast (seg_size (RODataSegment codeset))) CodeMutable
             (vm_Reprotect E code_vma ReadExecute vm1) = (Inl c2, vm2')
    \<longrightarrow> LoadModule E codeset base_addr w = Inl (UnwrapFailed c2))
   \<and> (vm_MapMemoryBlock E (seg_addr (CodeSegment codeset) + base_addr)
             (memory codeset) (seg_offset (CodeSegment codeset))
             (ucast (seg_size (CodeSegment codeset))) CodeStatic
             (vm_manager (process w)) = (Inr code_vma, vm1)
    \<longrightarrow> vm_MapMemoryBlock E (seg_addr (RODataSegment codeset) + base_addr)
             (memory codeset) (seg_offset (RODataSegment codeset))
             (ucast (seg_size (RODataSegment codeset))) CodeMutable
             (vm_Reprotect E code_vma ReadExecute vm1) = (Inr rodata_vma, vm2)
    \<longrightarrow> vm_MapMemoryBlock E (seg_addr (DataSegment codeset) + base_addr)
             (memory codeset) (seg_offset (DataSegment codeset))
             (ucast (seg_size (DataSegment codeset))) CodeMutable
             (vm_Reprotect E rodata_vma Read vm2) = (Inl c3, vm3')
    \<longrightarrow> LoadModule E codeset base_addr w = Inl (UnwrapFailed c3))
   \<and> perm_read ReadExecute \<and> perm_execute ReadExecute \<and> \<not> perm_write ReadExecute
   \<and> perm_read Read \<and> \<not> perm_write Read \<and> \<not> perm_execute Read
   \<and> perm_read ReadWrite \<and> perm_write ReadWrite \<and> \<not> perm_execute ReadWrite"
proof (intro conjI impI)
  assume "vm_MapMemoryBlock E (seg_addr (CodeSegment codeset) + base_addr)
             (memory codeset) (seg_offset (CodeSegment codeset))
             (ucast (seg_size (CodeSegment codeset))) CodeStatic
             (vm_manager (process w)) = (Inr code_vma, vm1)"
    and "vm_MapMemoryBlock E (seg_addr (RODataSegment codeset) + base_addr)
             (memory codeset) (seg_offset (RODataSegment codeset))
             (ucast (seg_size (RODataSegment codeset))) CodeMutable
             (vm_Reprotect E code_vma ReadExecute vm1) = (Inr rodata_vma, vm2)"
    and "vm_MapMemoryBlock E (seg_addr (DataSegment codeset) + base_addr)
             (memory codeset) (seg_offset (DataSegment codeset))
             (ucast (seg_size (DataSegment codeset))) CodeMutable
             (vm_Reprotect E rodata_vma Read vm2) = (Inr data_vma, vm3)"
  then show "LoadModule E codeset base_addr w
           = Inr (w\<lparr>process := (process w)
                     \<lparr>vm_manager := vm_Reprotect E data_vma ReadWrite vm3\<rparr>,
                   calls := calls w
                     @ [ClearInstructionCache 0, ClearInstructionCache 1,
                        ClearInstructionCache 2, ClearInstructionCache 3]\<rparr>)"
    by (rule LoadModule_ok)
next
  assume "vm_MapMemoryBlock E (seg_addr (CodeSegment codeset) + base_addr)
             (memory codeset) (seg_offset (CodeSegment codeset))
             (ucast (seg_size (CodeSegment codeset))) CodeStatic
             (vm_manager (process w)) = (Inl c1, vm1')"
  then show "LoadModule E codeset base_addr w = Inl (UnwrapFailed c1)"
    by (rule LoadModule_code_refused)
next
  assume "vm_MapMemoryBlock E (seg_addr (CodeSegment codeset) + base_addr)
             (memory codeset) (seg_offset (CodeSegment codeset))
             (ucast (seg_size (CodeSegment codeset))) CodeStatic
             (vm_manager (process w)) = (Inr code_vma, vm1)"
    and "vm_MapMemoryBlock E (seg_addr (RODataSegment codeset) + base_addr)
             (memory codeset) (seg_offset (RODataSegment codeset))
             (ucast (seg_size (RODataSegment codeset))) CodeMutable
             (vm_Reprotect E code_vma ReadExecute vm1) = (Inl c2, vm2')"
  then show "LoadModule E codeset base_addr w = Inl (UnwrapFailed c2)"
    by (rule LoadModule_rodata_refused)
next
  assume "vm_MapMemoryBlock E (seg_addr (CodeSegment codeset) + base_addr)
             (memory codeset) (seg_offset (CodeSegment codeset))
             (ucast (seg_size (CodeSegment codeset))) CodeStatic
             (vm_manager (process w)) = (Inr code_vma, vm1)"
    and "vm_MapMemoryBlock E (seg_addr (RODataSegment codeset) + base_addr)
             (memory codeset) (seg_offset (RODataSegment codeset))
             (ucast (seg_size (RODataSegment codeset))) CodeMutable
             (vm_Reprotect E code_vma ReadExecute vm1) = (Inr rodata_vma, vm2)"
    and "vm_MapMemoryBlock E (seg_addr (DataSegment codeset) + base_addr)
             (memory codeset) (seg_offset (DataSegment codeset))
             (ucast (seg_size (DataSegment codeset))) CodeMutable
             (vm_Reprotect E rodata_vma Read vm2) = (Inl c3, vm3')"
  then show "LoadModule E codeset base_addr w = Inl (UnwrapFailed c3)"
    by (rule LoadModule_data_refused)
qed simp_all

theorem load_module_maps_and_invalidates_witness:
  "LoadModule ref_Env example_codeset 0x8000000 example_world
     = Inr (example_world
          \<lparr>process := example_process
             \<lparr>vm_manager := [(0x8000000, 4, CodeStatic, ReadExecute),
                             (0x8001000, 4, CodeMutable, Read),
                             (0x8002000, 4, CodeMutable, ReadWrite)]\<rparr>,
           calls := [ClearInstructionCache 0, ClearInstructionCache 1,
                     ClearInstructionCache 2, ClearInstructionCache 3]\<rparr>)
   \<and> LoadModule (limited_Env 0) example_codeset 0x8000000 example_world
       = Inl (UnwrapFailed (ResultCode_Other 1))
   \<and> LoadModule (limited_Env 1) example_codeset 0x8000000 example_world
       = Inl (UnwrapFailed (ResultCode_Other 1))
   \<and> LoadModule (limited_Env 2) example_codeset 0x8000000 example_world
       = Inl (UnwrapFailed (ResultCode_Other 1))"
proof -
  have code: "vm_MapMemoryBlock ref_Env (seg_addr (CodeSegment example_codeset) + 0x8000000)
             (memory example_codeset) (seg_offset (CodeSegment example_codeset))
             (ucast (seg_size (CodeSegment example_codeset))) CodeStatic
             (vm_manager (process example_world))
           = (Inr 0, [(0x8000000, 4, CodeStatic, ReadWrite)])"
    by (simp add: ref_Env_def example_codeset_def example_world_def example_process_def)
  have rodata: "vm_MapMemoryBlock ref_Env (seg_addr (RODataSegment example_codeset) + 0x8000000)
             (memory example_codeset) (seg_offset (RODataSegment example_codeset))
             (ucast (seg_size (RODataSegment example_codeset))) CodeMutable
             (vm_Reprotect ref_Env 0 ReadExecute [(0x8000000, 4, CodeStatic, ReadWrite)])
           = (Inr 1, [(0x8000000, 4, CodeStatic, ReadExecute),
                      (0x8001000, 4, CodeMutable, ReadWrite)])"
    by (simp add: ref_Env_def example_codeset_def ref_reprotect_def)
  have data: "vm_MapMemoryBlock ref_Env (seg_addr (DataSegment example_codeset) + 0x8000000)
             (memory example_codeset) (seg_offset (DataSegment example_codeset))
             (ucast (seg_size (DataSegment example_codeset))) CodeMutable
             (vm_Reprotect ref_Env 1 Read
                [(0x8000000, 4, CodeStatic, ReadExecute),
                 (0x8001000, 4, CodeMutable, ReadWrite)])
           = (Inr 2, [(0x8000000, 4, CodeStatic, ReadExecute),
                      (0x8001000, 4, CodeMutable, Read),
                      (0x8002000, 4, CodeMutable, ReadWrite)])"
    by (simp add: ref_Env_def example_codeset_def ref_reprotect_def)
  have code0: "vm_MapMemoryBlock (limited_Env 0) (seg_addr (CodeSegment example_codeset) + 0x8000000)
             (memory example_codeset) (seg_offset (CodeSegment example_codeset))
             (ucast (seg_size (CodeSegment example_codeset))) CodeStatic
             (vm_manager (process example_world))
           = (Inl (ResultCode_Other 1), [])"
    by (simp add: limited_Env_def example_world_def example_process_def)
  have code1: "vm_MapMemoryBlock (limited_Env 1) (seg_addr (CodeSegment example_codeset) + 0x8000000)
             (memory example_codeset) (seg_offset (CodeSegment example_codeset))
             (ucast (seg_size (CodeSegment example_codeset))) CodeStatic
             (vm_manager (process example_world))
           = (Inr 0, [(0x8000000, 4, CodeStatic, ReadWrite)])"
    by (simp add: limited_Env_def example_codeset_def example_world_def example_process_def)
  have rodata1: "vm_MapMemoryBlock (limited_Env 1) (seg_addr (RODataSegment example_codeset) + 0x8000000)
             (memory example_codeset) (seg_offset (RODataSegment example_codeset))
             (ucast (seg_size (RODataSegment example_codeset))) CodeMutable
             (vm_Reprotect (limited_Env 1) 0 ReadExecute [(0x8000000, 4, CodeStatic, ReadWrite)])
           = (Inl (ResultCode_Other 1), [(0x8000000, 4, CodeStatic, ReadExecute)])"
    by (simp add: limited_Env_def ref_Env_def ref_reprotect_def)
  have code2: "vm_MapMemoryBlock (limited_Env 2) (seg_addr (CodeSegment example_codeset) + 0x8000000)
             (memory example_codeset) (seg_offset (CodeSegment example_codeset))
             (ucast (seg_size (CodeSegment example_codeset))) CodeStatic
             (vm_manager (process example_world))
           = (Inr 0, [(0x8000000, 4, CodeStatic, ReadWrite)])"
    by (simp add: limited_Env_def example_codeset_def example_world_def example_process_def)
  have rodata2: "vm_MapMemoryBlock (limited_Env 2) (seg_addr (RODataSegment example_codeset) + 0x8000000)
             (memory example_codeset) (seg_offset (RODataSegment example_codeset))
             (ucast (seg_size (RODataSegment example_codeset))) CodeMutable
             (vm_Reprotect (limited_Env 2) 0 ReadExecute [(0x8000000, 4, CodeStatic, ReadWrite)])
           = (Inr 1, [(0x8000000, 4, CodeStatic, ReadExecute),
                      (0x8001000, 4, CodeMutable, ReadWrite)])"
    by (simp add: limited_Env_def ref_Env_def example_codeset_def ref_reprotect_def)
  have data2: "vm_MapMemoryBlock (limited_Env 2) (seg_addr (DataSegment example_codeset) + 0x8000000)
             (memory example_codeset) (seg_offset (DataSegment example_codeset))
             (ucast (seg_size (DataSegment example_codeset))) CodeMutable
             (vm_Reprotect (limited_Env 2) 1 Read
                [(0x8000000, 4, CodeStatic, ReadExecute),
                 (0x8001000, 4, CodeMutable, ReadWrite)])
           = (Inl (ResultCode_Other 1), [(0x8000000, 4, CodeStatic, ReadExecute),
                                         (0x8001000, 4, CodeMutable, Read)])"
    by (simp add: limited_Env_def ref_Env_def ref_reprotect_def)
  note a = load_module_maps_and_invalidates
             [THEN conjunct1, rule_format, OF code rodata data]
  note b = load_module_maps_and_invalidates
             [THEN conjunct2, THEN conjunct1, rule_format, OF code0]
  note c = load_module_maps_and_invalidates
             [THEN conjunct2, THEN conjunct2, THEN conjunct1, rule_format, OF code1 rodata1]
  note d = load_module_maps_and_invalidates
             [THEN conjunct2, THEN conjunct2, THEN conjunct2, THEN conjunct1, rule_format,
              OF code2 rodata2 data2]
  show ?thesis
    using a b c d
    by (simp add: ref_Env_def ref_reprotect_def example_world_def)
qed

text \<open>
  C1 as stated fails twice. On the reference manager the code segment of the example code
  set ends up \<open>ReadExecute\<close>, which grants reading and is not \<open>Execute\<close>; and when the
  manager refuses a mapping, \<open>Unwrap\<close> ends the call before any segment is reprotected
  or any cache invalidated.
\<close>

theorem load_module_code_segment_readable:
  "LoadModule ref_Env example_codeset 0x8000000 example_world
     = Inr (example_world
          \<lparr>process := example_process
             \<lparr>vm_manager := [(0x8000000, 4, CodeStatic, ReadExecute),
                             (0x8001000, 4, CodeMutable, Read),
                             (0x8002000, 4, CodeMutable, ReadWrite)]\<rparr>,
           calls := [ClearInstructionCache 0, ClearInstructionCache 1,
                     ClearInstructionCache 2, ClearInstructionCache 3]\<rparr>)
   \<and> perm_read ReadExecute \<and> ReadExecute \<noteq> Execute
   \<and> LoadModule refusing_Env example_codeset 0x8000000 example_world
       = Inl (UnwrapFailed (ResultCode_Other 1))"
  by (simp add: LoadModule_def MapSegment_def and_then_def log_call_def ref_Env_def
      refusing_Env_def ref_reprotect_def example_codeset_def example_world_def
      example_process_def)

section \<open>The status over sequences of operations\<close>

lemma ParseKernelCaps_body_status:
  "status (process (snd (ParseKernelCaps_body E kernel_caps i w))) = status (process w)"
  by (simp add: ParseKernelCaps_body_def Let_def log_call_def)

lemma ParseKernelCaps_from_status:
  "status (process (ParseKernelCaps_from E kernel_caps i w)) = status (process w)"
proof (induction E kernel_caps i w rule: ParseKernelCaps_from.induct)
  case (1 E kernel_caps i w)
  show ?case
  proof (cases "i < length kernel_caps")
    case True
    then show ?thesis
      using "1.IH" by (simp add: ParseKernelCaps_from_step ParseKernelCaps_body_status)
  next
    case False
    then show ?thesis by (simp add: ParseKernelCaps_from_end)
  qed
qed

lemma Run_status:
  "Run E entry_point priority stack_size w = Inr w' \<Longrightarrow> status (process w') = Running"
  by (auto simp add: Run_def Let_def log_call_def ChangeStatus_def
      split: prod.splits sum.splits if_splits)

lemma PrepareForTermination_status:
  "PrepareForTermination E w = Inr w' \<Longrightarrow> status (process w') = Exited"
  by (auto simp add: PrepareForTermination_unfold and_then_def ChangeStatus_frame
      split: sum.splits)

lemma Mark_status:
  "status (process (snd (MarkNextAvailableTLSSlotAsUsed E thread w))) = status (process w)"
  by (simp add: MarkNextAvailableTLSSlotAsUsed_def Let_def split: prod.splits)

lemma FreeTLSSlot_status:
  "FreeTLSSlot E tls_address w = Inr w' \<Longrightarrow> status (process w') = status (process w)"
  by (auto simp add: FreeTLSSlot_def Let_def split: if_splits)

lemma MapSegment_status:
  "MapSegment E codeset base_addr segment permissions memory_state w = Inr w'
   \<Longrightarrow> status (process w') = status (process w)"
  by (auto simp add: MapSegment_def split: prod.splits sum.splits)

lemma LoadModule_status:
  "LoadModule E codeset base_addr w = Inr w' \<Longrightarrow> status (process w') = status (process w)"
  by (auto simp add: LoadModule_def and_then_def log_call_def
      split: sum.splits dest!: MapSegment_status)

lemma facade_status:
  "status (process (snd (HeapAllocate E target sz perms w))) = status (process w)"
  "status (process (snd (HeapFree E target sz32 w))) = status (process w)"
  "status (process (snd (MirrorMemory E dst_addr src_addr sz st w))) = status (process w)"
  "status (process (snd (UnmapMemory E dst_addr src_addr sz w))) = status (process w)"
  "status (process (snd (ClearSignalState w))) = status (process w)"
  "status (process (LoadFromMetadata E metadata w)) = status (process w)"
  by (simp_all add: HeapAllocate_def HeapFree_def MirrorMemory_def UnmapMemory_def
      ClearSignalState_def LoadFromMetadata_def Let_def split: prod.splits)

lemma apply_op_status:
  "apply_op E x w = Inr w' \<Longrightarrow>
   status (process w') =
     (case x of Op_Run entry_point priority stack_size \<Rightarrow> Running
      | Op_PrepareForTermination \<Rightarrow> Exited
      | _ \<Rightarrow> status (process w))"
proof (cases x)
  case (Op_ParseKernelCaps kernel_caps)
  then show "apply_op E x w = Inr w' \<Longrightarrow> ?thesis"
    by (auto simp add: ParseKernelCaps_def ParseKernelCaps_from_status)
qed (auto simp add: facade_status Mark_status Run_status PrepareForTermination_status
      FreeTLSSlot_status LoadModule_status Acquire_def split: if_splits)

lemma statuses_sorted:
  "run_in_time E ops w \<Longrightarrow>
   sorted (map status_rank (status (process w) # statuses E ops w))"
proof (induction ops arbitrary: w)
  case Nil
  then show ?case by simp
next
  case (Cons x xs)
  show ?case
  proof (cases "apply_op E x w")
    case (Inl e)
    then show ?thesis by simp
  next
    case (Inr w')
    have tail: "sorted (map status_rank (status (process w') # statuses E xs w'))"
      using Cons.IH [of w'] Cons.prems Inr by simp
    have step: "status_rank (status (process w)) \<le> status_rank (status (process w'))"
    proof (cases "is_Run x")
      case True
      then have "status (process w) = Created \<or> status (process w) = Running"
        using Cons.prems by simp
      moreover have "status (process w') = Running"
        using True apply_op_status [OF Inr] by (cases x) simp_all
      ultimately show ?thesis by auto
    next
      case False
      then show ?thesis
        using apply_op_status [OF Inr] by (cases x; cases "status (process w)") simp_all
    qed
    have "\<forall>r \<in> set (map status_rank (statuses E xs w')).
            status_rank (status (process w)) \<le> r"
      using tail step by (auto simp add: order_trans)
    then show ?thesis
      using Inr tail step by simp
  qed
qed

lemma Run_ref_Env:
  "Run ref_Env entry_point priority stack_size w
     = Inr (log_call (SetupMainThread entry_point priority)
             (ChangeStatus ref_Env Running
               (log_call LogLayout
                 (w\<lparr>process := (process w)
                    \<lparr>vm_manager := vm_manager (process w)
                       @ [(0x20000000 - ucast stack_size, ucast stack_size, Mapped,
                           ReadWrite)]\<rparr>\<rparr>))))"
  by (simp add: Run_def ref_Env_def Let_def)

lemma ref_Env_threads:
  "thread_Stop ref_Env = ref_stop"
  "wait_object_WakeupAllWaitingThreads ref_Env = ref_wakeup"
  by (simp_all add: ref_Env_def)

lemma ref_wakeup_example:
  "ref_wakeup 1 example_threads = example_threads"
  by (rule ext) (simp add: ref_wakeup_def example_threads_def)

lemma example_stops:
  assumes "threads w = example_threads" "current_thread w = 0"
    "process_id (process w) = 1"
    "scheduler_thread_list w = (\<lambda>core. if core = 0 then [0, 1] else if core = 1 then [3, 2] else [])"
  shows "\<exists>w'. PrepareForTermination ref_Env w = Inr w'"
proof -
  let ?w0 = "ChangeStatus ref_Env Exiting w"
  let ?w1 = "log_call (Thread_Stop 1) (?w0\<lparr>threads := ref_stop 1 example_threads\<rparr>)"
  have t0: "threads ?w0 = example_threads"
    using assms(1,3) by (simp add: ChangeStatus_threads ref_Env_threads ref_wakeup_example)
  have f: "owner_process (ref_stop 1 example_threads 3) = 2"
    "owner_process (ref_stop 1 example_threads 2) = 1"
    "thread_status (ref_stop 1 example_threads 2) = WaitSynchAll"
    by (simp_all add: ref_stop_def example_threads_def)
  have "stop_threads ref_Env [0, 1, 3, 2] ?w0 = stop_threads ref_Env [1, 3, 2] ?w0"
    by (simp add: ChangeStatus_frame assms(2))
  also have "\<dots> = stop_threads ref_Env [3, 2] ?w1"
    by (simp add: ChangeStatus_frame assms(2,3) t0 example_threads_def ref_Env_threads)
  finally have a: "stop_threads ref_Env [0, 1, 3, 2] ?w0 = stop_threads ref_Env [3, 2] ?w1" .
  have b: "\<exists>w2. stop_threads ref_Env [3, 2] ?w1 = Inr w2"
    by (simp add: ChangeStatus_frame assms(2,3) f [unfolded One_nat_def] log_call_def)
  then obtain w2 where c: "stop_threads ref_Env [0, 1, 3, 2] ?w0 = Inr w2"
    unfolding a [symmetric] by blast
  have l: "scheduler_thread_list w 0 @ scheduler_thread_list w 1
             @ scheduler_thread_list w 2 @ scheduler_thread_list w 3 = [0, 1, 3, 2]"
    by (simp add: assms(4))
  have "PrepareForTermination ref_Env w = Inr (ChangeStatus ref_Env Exited w2)"
    unfolding PrepareForTermination_unfold l c by (simp only: and_then_def sum.case)
  then show ?thesis by blast
qed

text \<open>
  C4, as the code has it. An operation that returns leaves the status at \<open>Running\<close> if
  it is \<open>Run\<close>, at \<open>Exited\<close> if it is \<open>PrepareForTermination\<close>, and as it was
  otherwise. So over a sequence of operations that calls \<open>Run\<close> only on a process that is
  \<open>Created\<close> or \<open>Running\<close>, the status seen after each operation never goes back in the
  order \<open>Created\<close>, \<open>Running\<close>, \<open>Exiting\<close>, \<open>Exited\<close>.
\<close>

theorem status_forward_when_run_in_time:
  "(run_in_time E ops w \<longrightarrow>
      sorted (map status_rank (status (process w) # statuses E ops w)))
   \<and> (\<forall>x w'. apply_op E x w = Inr w' \<longrightarrow>
         status (process w') =
           (case x of Op_Run entry_point priority stack_size \<Rightarrow> Running
            | Op_PrepareForTermination \<Rightarrow> Exited
            | _ \<Rightarrow> status (process w)))"
  using statuses_sorted [of E ops w] apply_op_status [of E _ w] by blast

theorem status_forward_when_run_in_time_witness:
  "run_in_time ref_Env [Op_Run 0x8000000 44 0x1000, Op_ClearSignalState] example_world
   \<and> sorted (map status_rank
        (status (process example_world)
         # statuses ref_Env [Op_Run 0x8000000 44 0x1000, Op_ClearSignalState] example_world))"
proof -
  have c: "status (process example_world) = Created"
    by (simp add: example_world_def example_process_def)
  have g: "run_in_time ref_Env [Op_Run 0x8000000 44 0x1000, Op_ClearSignalState] example_world"
    by (simp add: c Run_ref_Env)
  show ?thesis
    using status_forward_when_run_in_time
      [of ref_Env "[Op_Run 0x8000000 44 0x1000, Op_ClearSignalState]" example_world,
        THEN conjunct1, rule_format, OF g] g
    by blast
qed

text \<open>
  C4 as stated fails: nothing in \<open>Run\<close> or \<open>ChangeStatus\<close> looks at the order of the
  states. Running the example process, terminating it and running it again takes the
  status from \<open>Exited\<close> back to \<open>Running\<close>.
\<close>

theorem status_goes_back_on_late_run:
  "statuses ref_Env
     [Op_Run 0x8000000 44 0x1000, Op_PrepareForTermination, Op_Run 0x8000000 44 0x1000]
     example_world
     = [Running, Exited, Running]
   \<and> status_rank Running < status_rank Exited"
proof -
  define w1 where "w1 = log_call (SetupMainThread 0x8000000 44)
             (ChangeStatus ref_Env Running
               (log_call LogLayout
                 (example_world\<lparr>process := (process example_world)
                    \<lparr>vm_manager := vm_manager (process example_world)
                       @ [(0x20000000 - ucast (0x1000 :: u32), ucast (0x1000 :: u32), Mapped,
                           ReadWrite)]\<rparr>\<rparr>)))"
  have r1: "Run ref_Env 0x8000000 44 0x1000 example_world = Inr w1"
    unfolding w1_def by (rule Run_ref_Env)
  have s1: "status (process w1) = Running"
    by (rule Run_status [OF r1])
  have f1: "threads w1 = example_threads" "current_thread w1 = 0"
    "process_id (process w1) = 1"
    "scheduler_thread_list w1
       = (\<lambda>core. if core = 0 then [0, 1] else if core = 1 then [3, 2] else [])"
    by (simp_all add: w1_def log_call_def ChangeStatus_def Let_def example_world_def
        example_process_def ref_Env_threads ref_wakeup_example)
  from example_stops [OF f1] obtain w2 where
    r2: "PrepareForTermination ref_Env w1 = Inr w2"
    by blast
  have s2: "status (process w2) = Exited"
    by (rule PrepareForTermination_status [OF r2])
  obtain w3 where r3: "Run ref_Env 0x8000000 44 0x1000 w2 = Inr w3"
    using Run_ref_Env [of "0x8000000" 44 "0x1000" w2] by blast
  have s3: "status (process w3) = Running"
    by (rule Run_status [OF r3])
  have "statuses ref_Env
     [Op_Run 0x8000000 44 0x1000, Op_PrepareForTermination, Op_Run 0x8000000 44 0x1000]
     example_world = [Running, Exited, Running]"
    by (simp add: r1 r2 r3 s1 s2 s3)
  then show ?thesis by simp
qed

end
